theory Spec2Isabelle
  imports Complex_Main "HOL-Library.Sublist" "HOL-Library.AList" "HOL-Library.Log_Nat"
begin

section \<open>JavaScript strings\<close>

text \<open>
  The analyser sends an ASCII-framed text (the source names the decoded chunk \<open>ascii\<close>).
  A JavaScript string is modelled as a \<open>string\<close>: a list of characters, one \<open>char\<close> per
  UTF-16 code unit in the range 0..255, so that \<open>length\<close> is the \<open>.length\<close> of the source
  and \<open>@\<close> is \<open>+=\<close>. The argument of \<open>_onData\<close> is the chunk after
  \<open>data.toString("utf8")\<close>.
\<close>

abbreviation LF :: char where "LF \<equiv> CHR 0x0A"
abbreviation CR :: char where "CR \<equiv> CHR 0x0D"

text \<open>\<open>s.includes(t)\<close>: \<open>t\<close> occurs in \<open>s\<close> as a contiguous run of characters.\<close>

fun js_includes :: "string \<Rightarrow> string \<Rightarrow> bool" where
  "js_includes [] t = (t = [])"
| "js_includes (c # cs) t = (prefix t (c # cs) \<or> js_includes cs t)"

text \<open>The number of positions of \<open>s\<close> at which \<open>t\<close> occurs.\<close>

fun occurrences :: "string \<Rightarrow> string \<Rightarrow> nat" where
  "occurrences t [] = (if t = [] then 1 else 0)"
| "occurrences t (c # cs) = (if prefix t (c # cs) then 1 else 0) + occurrences t cs"

text \<open>
  White space as \<open>trim\<close>, \<open>parseFloat\<close>, \<open>Number\<close> and the class \<open>\s\<close> of a regular
  expression see it (WhiteSpace and LineTerminator of ECMA-262), in the range 0..255:
  TAB, LF, VT, FF, CR, SP and NBSP.
\<close>

definition is_ws :: "char \<Rightarrow> bool" where
  "is_ws c = (c \<in> set [CHR 0x09, CHR 0x0A, CHR 0x0B, CHR 0x0C, CHR 0x0D, CHR 0x20, CHR 0xA0])"

definition trimStart :: "string \<Rightarrow> string" where
  "trimStart s = dropWhile is_ws s"

definition trim :: "string \<Rightarrow> string" where
  "trim s = rev (dropWhile is_ws (rev (dropWhile is_ws s)))"

text \<open>
  \<open>s.split(sep)\<close> for a separator of one character: the pieces between the separators,
  at least one piece (\<open>"".split("|")\<close> is \<open>[""]\<close>).
\<close>

fun js_split :: "string \<Rightarrow> char \<Rightarrow> string list" where
  "js_split [] sep = [[]]"
| "js_split (c # cs) sep =
     (if c = sep then [] # js_split cs sep
      else (case js_split cs sep of
              [] \<Rightarrow> [[c]]
            | piece # pieces \<Rightarrow> (c # piece) # pieces))"

text \<open>
  \<open>xs[i]\<close> on an array: \<open>undefined\<close> (here \<open>None\<close>) out of range. The same for a
  destructuring \<open>const [a, b] = xs\<close>.
\<close>

definition nth_opt :: "'a list \<Rightarrow> nat \<Rightarrow> 'a option" where
  "nth_opt xs i = (if i < length xs then Some (xs ! i) else None)"

text \<open>\<open>raw.replace(/\r\n/g, "\n")\<close> and \<open>.replace(/\r/g, "\n")\<close>.\<close>

fun replace_CRLF :: "string \<Rightarrow> string" where
  "replace_CRLF (a # b # r) =
     (if a = CR \<and> b = LF then LF # replace_CRLF r else a # replace_CRLF (b # r))"
| "replace_CRLF r = r"

definition replace_CR :: "string \<Rightarrow> string" where
  "replace_CR s = map (\<lambda>c. if c = CR then LF else c) s"

section \<open>The regular expressions of \<open>parseProtocol\<close>\<close>

text \<open>
  The three expressions of the source are sequences of literal characters, greedy stars
  of a character class (\<open>\s*\<close>) and one capture group holding a lazy star of a class
  (\<open>(.*?)\<close>, \<open>([\s\S]*?)\<close>). \<open>rx_here\<close> is the backtracking matcher of ECMA-262 for
  such a sequence at a fixed position: a greedy star first tries to take one more
  character, a lazy star first tries the rest of the expression. Its result is the text
  of the capture group, \<open>m[1]\<close>.
\<close>

datatype rx_item = Chr char | Greedy "char \<Rightarrow> bool" | CapLazy "char \<Rightarrow> bool"

fun rx_here :: "rx_item list \<Rightarrow> string \<Rightarrow> string option" where
  "rx_here [] s = Some []"
| "rx_here (Chr c # r) [] = None"
| "rx_here (Chr c # r) (x # xs) = (if x = c then rx_here r xs else None)"
| "rx_here (Greedy p # r) [] = rx_here r []"
| "rx_here (Greedy p # r) (x # xs) =
     (if p x
      then (case rx_here (Greedy p # r) xs of
              Some cap \<Rightarrow> Some cap
            | None \<Rightarrow> rx_here r (x # xs))
      else rx_here r (x # xs))"
| "rx_here (CapLazy p # r) [] = (case rx_here r [] of Some _ \<Rightarrow> Some [] | None \<Rightarrow> None)"
| "rx_here (CapLazy p # r) (x # xs) =
     (case rx_here r (x # xs) of
        Some _ \<Rightarrow> Some []
      | None \<Rightarrow> if p x then map_option ((#) x) (rx_here (CapLazy p # r) xs) else None)"

text \<open>
  \<open>s.match(rx)\<close> without the flag \<open>g\<close>: the first position, from the left, at which the
  expression matches; \<open>None\<close> is \<open>null\<close>.
\<close>

fun js_match :: "rx_item list \<Rightarrow> string \<Rightarrow> string option" where
  "js_match rx [] = rx_here rx []"
| "js_match rx (x # xs) =
     (case rx_here rx (x # xs) of Some cap \<Rightarrow> Some cap | None \<Rightarrow> js_match rx xs)"

text \<open>The class \<open>.\<close>: every character but a line terminator.\<close>

definition rx_dot :: "char \<Rightarrow> bool" where
  "rx_dot c = (c \<noteq> LF \<and> c \<noteq> CR)"

text \<open>\<open>/<M>(.*?)<\/M>/\<close>, \<open>/<I>\s*([\s\S]*?)\s*<\/I>/\<close> and \<open>/<R>\s*([\s\S]*?)\s*<\/R>/\<close>.\<close>

definition rx_M :: "rx_item list" where
  "rx_M = map Chr ''<M>'' @ [CapLazy rx_dot] @ map Chr ''</M>''"

definition rx_I :: "rx_item list" where
  "rx_I = map Chr ''<I>'' @ [Greedy is_ws, CapLazy (\<lambda>c. True), Greedy is_ws] @ map Chr ''</I>''"

definition rx_R :: "rx_item list" where
  "rx_R = map Chr ''<R>'' @ [Greedy is_ws, CapLazy (\<lambda>c. True), Greedy is_ws] @ map Chr ''</R>''"

section \<open>JavaScript numbers\<close>

text \<open>
  A Number is an IEEE 754 binary64 value: not-a-number, an infinity, or a finite value,
  which is a rational. The sign of zero is not kept (\<open>-0 < x\<close> and the property key of
  \<open>-0\<close> are those of \<open>0\<close>).
\<close>

datatype jsnum = NaN | NegInf | Fin rat | PosInf

text \<open>\<open>x < y\<close> and \<open>x <= y\<close> on Numbers: false as soon as one side is not-a-number.\<close>

fun js_lt :: "jsnum \<Rightarrow> jsnum \<Rightarrow> bool" where
  "js_lt NaN y = False"
| "js_lt x NaN = False"
| "js_lt x NegInf = False"
| "js_lt NegInf y = True"
| "js_lt PosInf y = False"
| "js_lt (Fin a) (Fin b) = (a < b)"
| "js_lt (Fin a) PosInf = True"

fun js_le :: "jsnum \<Rightarrow> jsnum \<Rightarrow> bool" where
  "js_le NaN y = False"
| "js_le x NaN = False"
| "js_le NegInf y = True"
| "js_le x PosInf = True"
| "js_le x NegInf = False"
| "js_le PosInf y = False"
| "js_le (Fin a) (Fin b) = (a \<le> b)"

fun js_negate :: "jsnum \<Rightarrow> jsnum" where
  "js_negate NaN = NaN"
| "js_negate NegInf = PosInf"
| "js_negate PosInf = NegInf"
| "js_negate (Fin q) = Fin (- q)"

definition pow2 :: "int \<Rightarrow> rat" where
  "pow2 e = (if 0 \<le> e then 2 ^ nat e else 1 / 2 ^ nat (- e))"

text \<open>
  The binary exponent of a fraction \<open>n / d\<close> of positive integers:
  \<open>2 ^ e \<le> n / d < 2 ^ (e + 1)\<close>. The difference of the bit lengths is \<open>e\<close> or \<open>e + 1\<close>.
\<close>

definition binade :: "int \<Rightarrow> int \<Rightarrow> int" where
  "binade n d =
     (let k = bitlen n - bitlen d
      in if (if 0 \<le> k then d * 2 ^ nat k \<le> n else d \<le> n * 2 ^ nat (- k)) then k else k - 1)"

text \<open>The integer nearest to \<open>n / d\<close>, the even one of two that are equally near.\<close>

definition round_half_even :: "int \<Rightarrow> int \<Rightarrow> int" where
  "round_half_even n d =
     (let q = n div d; r = n mod d
      in if 2 * r < d then q else if d < 2 * r then q + 1 else if even q then q else q + 1)"

text \<open>
  The Number value of the mathematical value \<open>n / d\<close>, for \<open>d > 0\<close> (ECMA-262, 6.1.6.1):
  the nearest binary64 value, ties to the even significand. With \<open>e\<close> the binary
  exponent, not below that of the subnormals, the value is \<open>m * 2 ^ (e - 52)\<close> for the
  integer \<open>m\<close> nearest to \<open>n / d / 2 ^ (e - 52)\<close>; from \<open>2 ^ 1024\<close> on it is an infinity.
\<close>

definition number_value :: "int \<Rightarrow> int \<Rightarrow> jsnum" where
  "number_value n d =
     (if n = 0 then Fin 0
      else
        let e = max (binade \<bar>n\<bar> d) (- 1022);
            m = (if e \<le> 52 then round_half_even (\<bar>n\<bar> * 2 ^ nat (52 - e)) d
                 else round_half_even \<bar>n\<bar> (d * 2 ^ nat (e - 52)))
        in if 1023 < e \<or> (e = 1023 \<and> 2 ^ 53 \<le> m) then (if n < 0 then NegInf else PosInf)
           else Fin ((if n < 0 then - 1 else 1) * of_int m * pow2 (e - 52)))"

text \<open>The value \<open>m * 10 ^ k\<close> of a decimal literal with the digits \<open>m\<close>.\<close>

definition decimal_value :: "int \<Rightarrow> int \<Rightarrow> jsnum" where
  "decimal_value m k =
     (if 0 \<le> k then number_value (m * 10 ^ nat k) 1 else number_value m (10 ^ nat (- k)))"

subsection \<open>\<open>parseFloat\<close> and \<open>Number\<close>\<close>

definition is_digit :: "char \<Rightarrow> bool" where
  "is_digit c = (48 \<le> (of_char c :: nat) \<and> (of_char c :: nat) \<le> 57)"

definition digits_value :: "string \<Rightarrow> int" where
  "digits_value ds = foldl (\<lambda>a c. 10 * a + (of_char c - 48)) 0 ds"

text \<open>An ExponentPart at the head of \<open>s\<close>, when there is one: its value and what follows.\<close>

definition scan_exponent :: "string \<Rightarrow> int \<times> string" where
  "scan_exponent s =
     (case s of
        [] \<Rightarrow> (0, s)
      | c # r \<Rightarrow>
          if c = CHR ''e'' \<or> c = CHR ''E''
          then
            (let (sign, r') =
                   (case r of
                      [] \<Rightarrow> (1, r)
                    | d # r'' \<Rightarrow>
                        if d = CHR ''+'' then (1, r'')
                        else if d = CHR ''-'' then (- 1, r'')
                        else (1, r))
             in if takeWhile is_digit r' = [] then (0, s)
                else (sign * digits_value (takeWhile is_digit r'), dropWhile is_digit r'))
          else (0, s))"

text \<open>
  The longest prefix of \<open>s\<close> that is a StrUnsignedDecimalLiteral (\<open>Infinity\<close>, digits with
  an optional fraction and exponent, or a fraction that starts with the point), with its
  Number value and the rest of \<open>s\<close>; \<open>None\<close> when no prefix is one.
\<close>

definition scan_unsigned :: "string \<Rightarrow> (jsnum \<times> string) option" where
  "scan_unsigned s =
     (if prefix ''Infinity'' s then Some (PosInf, drop 8 s)
      else
        let ip = takeWhile is_digit s;
            r1 = dropWhile is_digit s;
            (fp, r2) =
               (case r1 of
                  [] \<Rightarrow> ([], r1)
                | c # r \<Rightarrow>
                    if c = CHR ''.'' \<and> (ip \<noteq> [] \<or> takeWhile is_digit r \<noteq> [])
                    then (takeWhile is_digit r, dropWhile is_digit r)
                    else ([], r1))
        in if ip = [] \<and> fp = [] then None
           else
             let (ex, r3) = scan_exponent r2
             in Some (decimal_value (digits_value (ip @ fp)) (ex - int (length fp)), r3))"

definition scan_decimal :: "string \<Rightarrow> (jsnum \<times> string) option" where
  "scan_decimal s =
     (case s of
        [] \<Rightarrow> None
      | c # r \<Rightarrow>
          if c = CHR ''+'' then scan_unsigned r
          else if c = CHR ''-''
          then map_option (\<lambda>(v, rest). (js_negate v, rest)) (scan_unsigned r)
          else scan_unsigned s)"

text \<open>
  \<open>parseFloat(s)\<close>: leading white space is skipped, the longest prefix that is a
  StrDecimalLiteral is converted, and \<open>NaN\<close> is returned when there is none.
\<close>

definition parseFloat :: "string \<Rightarrow> jsnum" where
  "parseFloat s = (case scan_decimal (trimStart s) of None \<Rightarrow> NaN | Some (v, rest) \<Rightarrow> v)"

definition radix_digit :: "char \<Rightarrow> int" where
  "radix_digit c =
     (let n = (of_char c :: int)
      in if 48 \<le> n \<and> n \<le> 57 then n - 48
         else if 97 \<le> n \<and> n \<le> 102 then n - 87
         else if 65 \<le> n \<and> n \<le> 70 then n - 55
         else 16)"

text \<open>A NonDecimalIntegerLiteral (\<open>0x\<close>, \<open>0o\<close>, \<open>0b\<close>) that is the whole of \<open>t\<close>.\<close>

definition scan_nondecimal :: "string \<Rightarrow> jsnum option" where
  "scan_nondecimal t =
     (case t of
        z # x # ds \<Rightarrow>
          (let base = (if x = CHR ''x'' \<or> x = CHR ''X'' then 16
                       else if x = CHR ''o'' \<or> x = CHR ''O'' then 8
                       else if x = CHR ''b'' \<or> x = CHR ''B'' then 2
                       else (0 :: int))
           in if z = CHR ''0'' \<and> base \<noteq> 0 \<and> ds \<noteq> [] \<and>
                 list_all (\<lambda>d. radix_digit d < base) ds
              then Some (number_value (foldl (\<lambda>a d. base * a + radix_digit d) 0 ds) 1)
              else None)
      | _ \<Rightarrow> None)"

text \<open>
  \<open>Number(x)\<close> for \<open>x\<close> a string or \<open>undefined\<close> (\<open>None\<close>): \<open>undefined\<close> gives \<open>NaN\<close>; a
  string is trimmed, the empty string is \<open>0\<close>, and anything that is not a numeric literal
  as a whole is \<open>NaN\<close>.
\<close>

definition js_Number :: "string option \<Rightarrow> jsnum" where
  "js_Number arg =
     (case arg of
        None \<Rightarrow> NaN
      | Some s \<Rightarrow>
          (let t = trim s
           in if t = [] then Fin 0
              else (case scan_nondecimal t of
                      Some v \<Rightarrow> v
                    | None \<Rightarrow>
                        (case scan_decimal t of
                           Some (v, rest) \<Rightarrow> if rest = [] then v else NaN
                         | None \<Rightarrow> NaN))))"

section \<open>The decoder: \<open>parseProtocol\<close>\<close>

text \<open>
  The record \<open>parseProtocol\<close> returns. \<open>machineInfo\<close> and \<open>sampleInfo\<close> start as the
  empty object \<open>{}\<close>, here \<open>None\<close>, and are replaced by an object with all its fields
  when their section is found; a field that holds \<open>undefined\<close> is \<open>None\<close>.
\<close>

record machine_info =
  model :: "string option"
  serialNumber :: "string option"

record sample_info =
  recordType :: "string option"
  analysisTime :: "string option"
  sampleId :: "string option"
  samplePosition :: "string option"
  sampleTypeCode :: jsnum
  sampleType :: string

record result_entry =
  value' :: jsnum
  unit :: string
  interpretation' :: "string option"

text \<open>
  \<open>result.results\<close> is a plain object used as a dictionary. Its own properties are kept
  as an association list, in the order of their first assignment. The list is read by
  key only: its order is not the order in which JavaScript enumerates the properties
  (keys that are array indices come first there, in ascending order), and
  \<open>parseProtocol\<close> never enumerates the object. An assignment \<open>obj["__proto__"] = v\<close> of an
  object \<open>v\<close> does not create an own property: it calls the setter inherited from
  \<open>Object.prototype\<close>, which makes \<open>v\<close> the prototype of \<open>obj\<close>; reading
  \<open>obj["__proto__"]\<close> gives the prototype back. \<open>js_get\<close> is the entry a read
  \<open>obj[key]\<close> returns. What every object inherits (\<open>toString\<close>, ..., and
  \<open>Object.prototype\<close> itself under \<open>__proto__\<close>) and the members \<open>value\<close>, \<open>unit\<close> of a
  replaced prototype are not result entries and are left out; none of them is named
  \<open>HbA1c\<close>.
\<close>

record results_obj =
  props :: "(string \<times> result_entry) list"
  proto :: "result_entry option"

definition empty_obj :: results_obj where
  "empty_obj = \<lparr>props = [], proto = None\<rparr>"

definition js_set :: "results_obj \<Rightarrow> string \<Rightarrow> result_entry \<Rightarrow> results_obj" where
  "js_set obj key v =
     (if key = ''__proto__'' then obj\<lparr>proto := Some v\<rparr>
      else obj\<lparr>props := AList.update key v (props obj)\<rparr>)"

definition js_get :: "results_obj \<Rightarrow> string \<Rightarrow> result_entry option" where
  "js_get obj key = (if key = ''__proto__'' then proto obj else map_of (props obj) key)"

record decoded =
  machineInfo :: "machine_info option"
  sampleInfo :: "sample_info option"
  results :: results_obj
  raw :: string
  receivedAt :: string

text \<open>An exception object, for a decoder that throws.\<close>

datatype js_error = JsError string

text \<open>
  \<open>typeMap[Number(parts[4])]\<close>: the keys of \<open>typeMap\<close> are the strings \<open>"0"\<close> to \<open>"3"\<close>, and
  the property key of a Number is one of them exactly when the Number is that integer.
\<close>

definition typeMap :: "jsnum \<Rightarrow> string option" where
  "typeMap n =
     (if n = Fin 0 then Some ''whole_blood''
      else if n = Fin 1 then Some ''quality_control''
      else if n = Fin 2 then Some ''calibration''
      else if n = Fin 3 then Some ''diluted''
      else None)"

text \<open>
  The body of the \<open>forEach\<close> over the lines of the results section:
  \<open>const [key, val] = line.split("|"); if (!key || !val) return;\<close> and the assignment
  of \<open>result.results[key]\<close>.
\<close>

definition result_line :: "results_obj \<Rightarrow> string \<Rightarrow> results_obj" where
  "result_line res line =
     (let parts = js_split line (CHR ''|'')
      in case (nth_opt parts 0, nth_opt parts 1) of
           (Some key, Some val) \<Rightarrow>
             if key = [] \<or> val = [] then res
             else js_set res key
                    \<lparr>value' = parseFloat val, unit = ''%'', interpretation' = None\<rparr>
         | _ \<Rightarrow> res)"

text \<open>The literals \<open>5.7\<close> and \<open>6.5\<close> of the source denote their Number values.\<close>

definition lit_5_7 :: jsnum where
  "lit_5_7 = number_value 57 10"

definition lit_6_5 :: jsnum where
  "lit_6_5 = number_value 65 10"

text \<open>
  The clinical interpretation: \<open>if (result.results.HbA1c)\<close> holds for every entry, an
  object; the chain of conditionals sets its field \<open>interpretation\<close>.
\<close>

definition clinical :: "results_obj \<Rightarrow> results_obj" where
  "clinical res =
     (case js_get res ''HbA1c'' of
        None \<Rightarrow> res
      | Some e \<Rightarrow>
          (let v = value' e
           in res\<lparr>props := AList.update ''HbA1c''
                  (e\<lparr>interpretation' :=
                       Some (if js_lt v lit_5_7 then ''Normal''
                             else if js_lt v lit_6_5 then ''Prediabetes''
                             else ''Diabetes'')\<rparr>) (props res)\<rparr>))"

text \<open>\<open>const clean = raw.replace(/\r\n/g, "\n").replace(/\r/g, "\n")\<close>.\<close>

definition clean_text :: "string \<Rightarrow> string" where
  "clean_text raw' = replace_CR (replace_CRLF raw')"

text \<open>The lines of the results section that reach the \<open>forEach\<close>.\<close>

definition result_lines :: "string \<Rightarrow> string list" where
  "result_lines body = filter (\<lambda>l. l \<noteq> []) (map trim (js_split body LF))"

text \<open>
  \<open>parseProtocol(raw)\<close>. \<open>now\<close> is the reading of the clock, \<open>new Date().toISOString()\<close>.
  No statement of the function throws on a string: \<open>replace\<close>, \<open>match\<close>, \<open>split\<close>, \<open>trim\<close>,
  \<open>Number\<close> and \<open>parseFloat\<close> are total, a missing array element is \<open>undefined\<close>, and the
  assignments are to objects the function has just created. So every path returns the
  record, \<open>Inr\<close>.
\<close>

definition parseProtocol :: "string \<Rightarrow> string \<Rightarrow> js_error + decoded" where
  "parseProtocol now raw' =
     (let clean = clean_text raw';
          mi = (case js_match rx_M clean of
                  None \<Rightarrow> None
                | Some m1 \<Rightarrow>
                    (let parts = js_split m1 (CHR ''|'')
                     in Some \<lparr>model = map_option trim (nth_opt parts 0),
                              serialNumber = map_option trim (nth_opt parts 1)\<rparr>));
          si = (case js_match rx_I clean of
                  None \<Rightarrow> None
                | Some i1 \<Rightarrow>
                    (let parts = js_split (trim i1) (CHR ''|'')
                     in Some \<lparr>recordType = nth_opt parts 0,
                              analysisTime = nth_opt parts 1,
                              sampleId = nth_opt parts 2,
                              samplePosition = nth_opt parts 3,
                              sampleTypeCode = js_Number (nth_opt parts 4),
                              sampleType =
                                (case typeMap (js_Number (nth_opt parts 4)) of
                                   Some label \<Rightarrow> label
                                 | None \<Rightarrow> ''unknown'')\<rparr>));
          res = (case js_match rx_R clean of
                   None \<Rightarrow> empty_obj
                 | Some r1 \<Rightarrow> foldl result_line empty_obj (result_lines r1))
      in Inr \<lparr>machineInfo = mi, sampleInfo = si, results = clinical res,
              raw = raw', receivedAt = now\<rparr>)"

section \<open>The framer: \<open>_onData\<close>, \<open>_consumeChar\<close>, \<open>_handleCompleteMessage\<close>\<close>

text \<open>
  The streaming state of \<open>LISSerialInterface\<close>: the fields \<open>state\<close> (\<open>"IDLE"\<close> or
  \<open>"RECEIVING"\<close>) and \<open>messageBuffer\<close>. The constructor sets them to \<open>"IDLE"\<close> and \<open>""\<close>.
  The field \<open>lastByteAt\<close> is written by \<open>_onData\<close> and never read, and the options only
  switch console output on; both are left out.
\<close>

datatype framer_state = IDLE | RECEIVING

record framer =
  state :: framer_state
  messageBuffer :: string

definition fresh :: framer where
  "fresh = \<lparr>state = IDLE, messageBuffer = []\<rparr>"

text \<open>
  What the interface emits to its listeners: \<open>emit("results", parsed)\<close> and
  \<open>emit("error", err)\<close>. Listeners are outside the class: an emit is recorded in the
  list of events and returns normally. The console output is not part of the state.
\<close>

datatype ('e, 'r) event = ResultsEv 'r | ErrorEv 'e

text \<open>
  \<open>_handleCompleteMessage(message)\<close>: the decoder \<open>parse\<close> stands for
  \<open>this.parseProtocol\<close>; a decoder that throws returns \<open>Inl err\<close>, which the
  \<open>try\<close>/\<open>catch\<close> turns into an error event. The method runs on the framer it is
  given and leaves it as it is.
\<close>

definition handleCompleteMessage ::
  "(string \<Rightarrow> 'e + 'r) \<Rightarrow> framer \<Rightarrow> string \<Rightarrow> framer \<times> ('e, 'r) event list" where
  "handleCompleteMessage parse this message =
     (case parse message of
        Inr parsed \<Rightarrow> (this, [ResultsEv parsed])
      | Inl err \<Rightarrow> (this, [ErrorEv err]))"

text \<open>
  \<open>_consumeChar(char)\<close>, statement by statement: append the character; on a start
  delimiter in the \<open>IDLE\<close> state switch to \<open>RECEIVING\<close> with the buffer \<open>"<SEND>"\<close> and
  return; on an end delimiter in the \<open>RECEIVING\<close> state reset the fields and then hand
  the full message over; last, the overflow protection.
\<close>

definition consumeChar ::
  "(string \<Rightarrow> 'e + 'r) \<Rightarrow> framer \<Rightarrow> char \<Rightarrow> framer \<times> ('e, 'r) event list" where
  "consumeChar parse this c =
     (let buf = messageBuffer this @ [c] in
      if state this = IDLE \<and> js_includes buf ''<SEND>''
      then (\<lparr>state = RECEIVING, messageBuffer = ''<SEND>''\<rparr>, [])
      else
        let (this1, out) =
              (if state this = RECEIVING \<and> js_includes buf ''</SEND>''
               then handleCompleteMessage parse \<lparr>state = IDLE, messageBuffer = []\<rparr> buf
               else (\<lparr>state = state this, messageBuffer = buf\<rparr>, []))
        in if length (messageBuffer this1) > 100000
           then (\<lparr>state = IDLE, messageBuffer = []\<rparr>, out)
           else (this1, out))"

text \<open>
  \<open>_onData(data)\<close>: the loop \<open>for (const char of ascii)\<close> over the decoded chunk.
\<close>

fun onData ::
  "(string \<Rightarrow> 'e + 'r) \<Rightarrow> framer \<Rightarrow> string \<Rightarrow> framer \<times> ('e, 'r) event list" where
  "onData parse this [] = (this, [])"
| "onData parse this (c # cs) =
     (let (this1, out1) = consumeChar parse this c;
          (this2, out2) = onData parse this1 cs
      in (this2, out1 @ out2))"

text \<open>The port delivers one chunk after the other to the same object.\<close>

fun onChunks ::
  "(string \<Rightarrow> 'e + 'r) \<Rightarrow> framer \<Rightarrow> string list \<Rightarrow> framer \<times> ('e, 'r) event list" where
  "onChunks parse this [] = (this, [])"
| "onChunks parse this (chunk # chunks) =
     (let (this1, out1) = onData parse this chunk;
          (this2, out2) = onChunks parse this1 chunks
      in (this2, out1 @ out2))"

text \<open>The event one complete message ends as: results, or the error of the decoder.\<close>

definition event_of :: "(string \<Rightarrow> 'e + 'r) \<Rightarrow> string \<Rightarrow> ('e, 'r) event" where
  "event_of parse m = (case parse m of Inr p \<Rightarrow> ResultsEv p | Inl e \<Rightarrow> ErrorEv e)"

text \<open>
  The complete messages handed to the decoder, in order: the events of a decoder that
  returns its input.
\<close>

fun message_of :: "('e, string) event \<Rightarrow> string" where
  "message_of (ResultsEv m) = m"
| "message_of (ErrorEv e) = []"

definition completeMessages :: "framer \<Rightarrow> string \<Rightarrow> string list" where
  "completeMessages this cs =
     map message_of (snd (onData (\<lambda>m. (Inr m :: unit + string)) this cs))"

section \<open>The properties of the specification\<close>

text \<open>
  The invariant of the two fields: while receiving, the buffer starts with the start
  delimiter and holds no end delimiter; while idle, it holds no start delimiter.
\<close>

definition framer_inv :: "framer \<Rightarrow> bool" where
  "framer_inv this =
     (case state this of
        RECEIVING \<Rightarrow> prefix ''<SEND>'' (messageBuffer this) \<and>
                     \<not> js_includes (messageBuffer this) ''</SEND>''
      | IDLE \<Rightarrow> \<not> js_includes (messageBuffer this) ''<SEND>'')"

text \<open>
  A complete message of the wire format: it begins with the start delimiter and ends
  with the end delimiter, which occurs nowhere before.
\<close>

definition well_framed :: "string \<Rightarrow> bool" where
  "well_framed m =
     (prefix ''<SEND>'' m \<and> suffix ''</SEND>'' m \<and> occurrences ''</SEND>'' m = 1)"

text \<open>
  A line of the results section with both halves: a key before the first \<open>|\<close> and a
  value after it, neither of them empty.
\<close>

definition line_key :: "string \<Rightarrow> string" where
  "line_key l = hd (js_split l (CHR ''|''))"

definition line_value :: "string \<Rightarrow> string" where
  "line_value l = (case tl (js_split l (CHR ''|'')) of [] \<Rightarrow> [] | v # rest \<Rightarrow> v)"

definition has_key_and_value :: "string \<Rightarrow> bool" where
  "has_key_and_value l = (line_key l \<noteq> [] \<and> line_value l \<noteq> [])"

text \<open>A section is absent from a text when its opening or its closing tag is.\<close>

definition section_absent :: "string \<Rightarrow> string \<Rightarrow> string \<Rightarrow> bool" where
  "section_absent opening closing s = (\<not> js_includes s opening \<or> \<not> js_includes s closing)"

section \<open>Example inputs\<close>

text \<open>The end-to-end scenario of the specification.\<close>

definition example_message :: string where
  "example_message =
     ''<SEND>'' @ [LF] @ ''<M>GQ-1000|SN123</M>'' @ [LF] @ ''<I>'' @ [LF] @
     ''0|2024-01-01T10:00|S1|A1|0'' @ [LF] @ ''</I>'' @ [LF] @ ''<R>'' @ [LF] @
     ''HbA1c|5.4'' @ [LF] @ ''</R>'' @ [LF] @ ''</SEND>''"

text \<open>
  A message with a results section only: a value that is no number, a blank line, a line
  with no value and a line with no key.
\<close>

definition garbled_message :: string where
  "garbled_message =
     ''<SEND>'' @ [LF] @ ''<R>'' @ [LF] @ ''HbA1c|abc'' @ [LF] @ [LF] @ ''Hb|'' @ [LF] @
     ''|7'' @ [LF] @ ''</R>'' @ [LF] @ ''</SEND>''"

text \<open>Messages with a results section only: an HbA1c value on a bound of a range.\<close>

definition boundary_message :: string where
  "boundary_message = ''<SEND><R>HbA1c|5.7</R></SEND>''"

text \<open>A message with no section at all.\<close>

definition bare_message :: string where
  "bare_message = ''<SEND></SEND>''"

text \<open>A message whose sample record has two fields only.\<close>

definition short_sample_message :: string where
  "short_sample_message = ''<SEND><I>0|10:00</I></SEND>''"

text \<open>A message whose sample record ends with an empty code.\<close>

definition empty_code_message :: string where
  "empty_code_message = ''<SEND><I>0|10:00|S1|A1|</I></SEND>''"

text \<open>A message whose sample record ends with a code that is no number.\<close>

definition unparsable_code_message :: string where
  "unparsable_code_message = ''<SEND><I>0|10:00|S1|A1|abc</I></SEND>''"

section \<open>Facts about the framer\<close>

subsection \<open>Substrings\<close>

lemma js_includes_sublist: "js_includes s t = sublist t s"
  by (induction s) (auto simp: sublist_Cons_right)

lemma js_includes_append_left: "js_includes s t \<Longrightarrow> js_includes (s @ u) t"
  by (simp add: js_includes_sublist sublist_append)

lemma js_includes_prefix_mono:
  "\<not> js_includes (buf @ x # xs) t \<Longrightarrow> \<not> js_includes (buf @ [x]) t"
  using js_includes_append_left[of "buf @ [x]" t xs] by auto

lemma new_occurrence_is_suffix:
  assumes "\<not> js_includes buf t" "js_includes (buf @ [c]) t"
  shows "suffix t (buf @ [c])"
proof -
  from assms(2) obtain ps ss where eq: "buf @ [c] = ps @ t @ ss"
    by (auto simp: js_includes_sublist sublist_def)
  show ?thesis
  proof (cases ss rule: rev_cases)
    case Nil
    with eq show ?thesis by (simp add: suffix_def)
  next
    case (snoc ss' x)
    with eq have "buf = ps @ t @ ss'" by simp
    then have "js_includes buf t" by (auto simp: js_includes_sublist sublist_def)
    with assms(1) show ?thesis by simp
  qed
qed

lemma occurrences_zero: "t \<noteq> [] \<Longrightarrow> occurrences t s = 0 \<longleftrightarrow> \<not> js_includes s t"
  by (induction s) auto

lemma occurrences_snoc:
  assumes "t \<noteq> []"
  shows "occurrences t (buf @ [c]) = occurrences t buf + (if suffix t (buf @ [c]) then 1 else 0)"
proof (induction buf)
  case Nil
  then show ?case using assms by (cases t) (auto simp: suffix_Cons)
next
  case (Cons x xs)
  let ?A = "t = x # xs @ [c]"
  have p: "prefix t (x # xs @ [c]) = (?A \<or> prefix t (x # xs))"
    using prefix_snoc[of t "x # xs" c] by simp
  have s: "suffix t (x # xs @ [c]) = (?A \<or> suffix t (xs @ [c]))"
    by (simp add: suffix_Cons)
  have e1: "?A \<Longrightarrow> \<not> prefix t (x # xs)" by (auto dest: prefix_length_le)
  have e2: "?A \<Longrightarrow> \<not> suffix t (xs @ [c])" by (auto dest: suffix_length_le)
  show ?case using Cons.IH p s e1 e2 by auto
qed

subsection \<open>One character\<close>

lemma handleCompleteMessage_eq:
  "handleCompleteMessage parse this m = (this, [event_of parse m])"
  by (simp add: handleCompleteMessage_def event_of_def split: sum.splits)

lemma consumeChar_start:
  "state this = IDLE \<Longrightarrow> js_includes (messageBuffer this @ [c]) ''<SEND>'' \<Longrightarrow>
   consumeChar parse this c = (\<lparr>state = RECEIVING, messageBuffer = ''<SEND>''\<rparr>, [])"
  by (simp add: consumeChar_def)

lemma consumeChar_end:
  "state this = RECEIVING \<Longrightarrow> js_includes (messageBuffer this @ [c]) ''</SEND>'' \<Longrightarrow>
   consumeChar parse this c =
     (\<lparr>state = IDLE, messageBuffer = []\<rparr>, [event_of parse (messageBuffer this @ [c])])"
  by (simp add: consumeChar_def handleCompleteMessage_eq)

lemma consumeChar_idle_keep:
  "state this = IDLE \<Longrightarrow> \<not> js_includes (messageBuffer this @ [c]) ''<SEND>'' \<Longrightarrow>
   consumeChar parse this c =
     (if length (messageBuffer this) \<ge> 100000 then \<lparr>state = IDLE, messageBuffer = []\<rparr>
      else \<lparr>state = IDLE, messageBuffer = messageBuffer this @ [c]\<rparr>, [])"
  by (simp add: consumeChar_def)

lemma consumeChar_receiving_keep:
  "state this = RECEIVING \<Longrightarrow> \<not> js_includes (messageBuffer this @ [c]) ''</SEND>'' \<Longrightarrow>
   consumeChar parse this c =
     (if length (messageBuffer this) \<ge> 100000 then \<lparr>state = IDLE, messageBuffer = []\<rparr>
      else \<lparr>state = RECEIVING, messageBuffer = messageBuffer this @ [c]\<rparr>, [])"
  by (simp add: consumeChar_def)

lemma consumeChar_cases:
  obtains (start) "state this = IDLE" "js_includes (messageBuffer this @ [c]) ''<SEND>''"
  | (finish) "state this = RECEIVING" "js_includes (messageBuffer this @ [c]) ''</SEND>''"
  | (idle) "state this = IDLE" "\<not> js_includes (messageBuffer this @ [c]) ''<SEND>''"
  | (receiving) "state this = RECEIVING" "\<not> js_includes (messageBuffer this @ [c]) ''</SEND>''"
  by (cases "state this") auto

lemma consumeChar_enter_receiving:
  assumes "state this = IDLE" "state (fst (consumeChar parse this c)) = RECEIVING"
  shows "consumeChar parse this c = (\<lparr>state = RECEIVING, messageBuffer = ''<SEND>''\<rparr>, [])"
proof (cases "js_includes (messageBuffer this @ [c]) ''<SEND>''")
  case True
  with assms(1) show ?thesis by (rule consumeChar_start)
next
  case False
  with assms show ?thesis by (simp add: consumeChar_idle_keep split: if_splits)
qed

lemma buffer_bounded: "length (messageBuffer (fst (consumeChar parse this c))) \<le> 100000"
  by (cases rule: consumeChar_cases[of this c])
     (simp_all add: consumeChar_start consumeChar_end consumeChar_idle_keep
        consumeChar_receiving_keep)

subsection \<open>Streams and chunks\<close>

lemma onData_append:
  "onData parse this (xs @ ys) =
     (let (this1, out1) = onData parse this xs;
          (this2, out2) = onData parse this1 ys
      in (this2, out1 @ out2))"
  by (induction xs arbitrary: this) (simp_all split: prod.splits)

lemma fst_onData_Cons:
  "fst (onData parse this (c # cs)) = fst (onData parse (fst (consumeChar parse this c)) cs)"
  by (simp split: prod.splits)

lemma onChunks_concat: "onChunks parse this chunks = onData parse this (concat chunks)"
  by (induction chunks arbitrary: this) (simp_all add: onData_append split: prod.splits)

lemma consumeChar_parse_indep:
  "consumeChar parse this c =
     (fst (consumeChar (\<lambda>m. (Inr m :: unit + string)) this c),
      map (\<lambda>ev. event_of parse (message_of ev)) (snd (consumeChar (\<lambda>m. (Inr m :: unit + string)) this c)))"
  by (cases rule: consumeChar_cases[of this c])
     (simp_all add: consumeChar_start consumeChar_end consumeChar_idle_keep consumeChar_receiving_keep event_of_def)

lemma onData_parse_indep:
  "onData parse this cs =
     (fst (onData (\<lambda>m. (Inr m :: unit + string)) this cs),
      map (event_of parse) (completeMessages this cs))"
proof (induction cs arbitrary: this)
  case Nil
  show ?case by (simp add: completeMessages_def)
next
  case (Cons c cs)
  obtain f1 o1 where a: "consumeChar (\<lambda>m. (Inr m :: unit + string)) this c = (f1, o1)"
    by (cases "consumeChar (\<lambda>m. (Inr m :: unit + string)) this c")
  have b: "consumeChar parse this c = (f1, map (\<lambda>ev. event_of parse (message_of ev)) o1)"
    using consumeChar_parse_indep[of parse this c] a by simp
  obtain f2 o2 where c: "onData (\<lambda>m. (Inr m :: unit + string)) f1 cs = (f2, o2)"
    by (cases "onData (\<lambda>m. (Inr m :: unit + string)) f1 cs")
  have d: "onData parse f1 cs = (f2, map (event_of parse) (map message_of o2))"
    using Cons.IH[of f1] c by (simp add: completeMessages_def)
  show ?case
    by (simp add: a b c d completeMessages_def)
qed

lemma fst_onData_parse:
  "fst (onData parse this cs) = fst (onData parse' this cs)"
  using onData_parse_indep[of parse this cs] onData_parse_indep[of parse' this cs]
  by (metis fst_conv)

lemma snd_onData_events:
  "snd (onData parse this cs) = map (event_of parse) (completeMessages this cs)"
  using onData_parse_indep[of parse this cs] by simp

lemma completeMessages_append:
  "completeMessages this (xs @ ys) =
     completeMessages this xs @ completeMessages (fst (onData parse this xs)) ys"
proof -
  let ?p = "\<lambda>m. (Inr m :: unit + string)"
  have "fst (onData parse this xs) = fst (onData ?p this xs)" by (rule fst_onData_parse)
  then show ?thesis
    by (simp add: completeMessages_def onData_append split: prod.splits)
qed

subsection \<open>The invariant\<close>

lemma framer_inv_fresh: "framer_inv fresh"
  by (simp add: framer_inv_def fresh_def)

lemma framer_inv_step:
  assumes "framer_inv this"
  shows "framer_inv (fst (consumeChar parse this c))"
proof (cases rule: consumeChar_cases[of this c])
  case start
  then show ?thesis by (simp add: consumeChar_start framer_inv_def)
next
  case finish
  then show ?thesis by (simp add: consumeChar_end framer_inv_def)
next
  case idle
  then show ?thesis by (simp add: consumeChar_idle_keep framer_inv_def)
next
  case receiving
  with assms show ?thesis by (simp add: consumeChar_receiving_keep framer_inv_def)
qed

lemma framer_inv_onData: "framer_inv this \<Longrightarrow> framer_inv (fst (onData parse this cs))"
proof (induction cs arbitrary: this)
  case Nil
  then show ?case by simp
next
  case (Cons c cs)
  from Cons.IH[OF framer_inv_step[OF Cons.prems, of parse c]]
  show ?case by (simp only: fst_onData_Cons)
qed

lemma step_message_well_framed:
  assumes "framer_inv this" "ev \<in> set (snd (consumeChar (\<lambda>m. (Inr m :: unit + string)) this c))"
  shows "well_framed (message_of ev)"
proof (cases rule: consumeChar_cases[of this c])
  case start
  with assms show ?thesis by (simp add: consumeChar_start)
next
  case finish
  let ?m = "messageBuffer this @ [c]"
  from finish assms(1) have p: "prefix ''<SEND>'' (messageBuffer this)"
    and n: "\<not> js_includes (messageBuffer this) ''</SEND>''"
    by (simp_all add: framer_inv_def)
  have s: "suffix ''</SEND>'' ?m" using new_occurrence_is_suffix[OF n finish(2)] .
  have z: "occurrences ''</SEND>'' (messageBuffer this) = 0"
    using n by (simp add: occurrences_zero)
  have o: "occurrences ''</SEND>'' ?m = 1"
    using occurrences_snoc[of "''</SEND>''" "messageBuffer this" c] s z by simp
  have "prefix ''<SEND>'' ?m" using p by (rule prefix_prefix)
  with s o finish assms(2) show ?thesis
    by (simp add: consumeChar_end well_framed_def event_of_def)
next
  case idle
  with assms show ?thesis by (simp add: consumeChar_idle_keep)
next
  case receiving
  with assms show ?thesis by (simp add: consumeChar_receiving_keep)
qed

lemma messages_well_framed:
  "framer_inv this \<Longrightarrow> m \<in> set (completeMessages this cs) \<Longrightarrow> well_framed m"
proof (induction cs arbitrary: this)
  case Nil
  then show ?case by (simp add: completeMessages_def)
next
  case (Cons c cs)
  obtain f1 o1 where a: "consumeChar (\<lambda>m. (Inr m :: unit + string)) this c = (f1, o1)"
    by (cases "consumeChar (\<lambda>m. (Inr m :: unit + string)) this c")
  have inv1: "framer_inv f1" using framer_inv_step[OF Cons.prems(1), of "\<lambda>m. (Inr m :: unit + string)" c] a by simp
  from Cons.prems(2) a have "m \<in> message_of ` set o1 \<or> m \<in> set (completeMessages f1 cs)"
    by (auto simp: completeMessages_def split: prod.splits)
  then show ?case
  proof
    assume "m \<in> message_of ` set o1"
    then obtain ev where "ev \<in> set o1" "m = message_of ev" by auto
    with step_message_well_framed[OF Cons.prems(1), of ev c] a show ?thesis by simp
  next
    assume "m \<in> set (completeMessages f1 cs)"
    with Cons.IH[OF inv1] show ?thesis .
  qed
qed

subsection \<open>Streams without a delimiter\<close>

lemma receiving_run:
  "\<not> js_includes (buf @ xs) ''</SEND>'' \<Longrightarrow> length (buf @ xs) \<le> 100000 \<Longrightarrow>
   onData parse \<lparr>state = RECEIVING, messageBuffer = buf\<rparr> xs =
     (\<lparr>state = RECEIVING, messageBuffer = buf @ xs\<rparr>, [])"
proof (induction xs arbitrary: buf)
  case Nil
  then show ?case by simp
next
  case (Cons x xs)
  have n: "\<not> js_includes (buf @ [x]) ''</SEND>''"
    using Cons.prems(1) by (rule js_includes_prefix_mono)
  have l: "\<not> length buf \<ge> 100000" using Cons.prems(2) by simp
  have step: "consumeChar parse \<lparr>state = RECEIVING, messageBuffer = buf\<rparr> x =
      (\<lparr>state = RECEIVING, messageBuffer = buf @ [x]\<rparr>, [])"
    using consumeChar_receiving_keep[of "\<lparr>state = RECEIVING, messageBuffer = buf\<rparr>" x parse] n l
    by simp
  have "onData parse \<lparr>state = RECEIVING, messageBuffer = buf @ [x]\<rparr> xs =
      (\<lparr>state = RECEIVING, messageBuffer = (buf @ [x]) @ xs\<rparr>, [])"
    using Cons.prems by (intro Cons.IH) simp_all
  with step show ?case by simp
qed

lemma idle_run:
  "\<not> js_includes (buf @ xs) ''<SEND>'' \<Longrightarrow> length (buf @ xs) \<le> 100000 \<Longrightarrow>
   onData parse \<lparr>state = IDLE, messageBuffer = buf\<rparr> xs =
     (\<lparr>state = IDLE, messageBuffer = buf @ xs\<rparr>, [])"
proof (induction xs arbitrary: buf)
  case Nil
  then show ?case by simp
next
  case (Cons x xs)
  have n: "\<not> js_includes (buf @ [x]) ''<SEND>''"
    using Cons.prems(1) by (rule js_includes_prefix_mono)
  have l: "\<not> length buf \<ge> 100000" using Cons.prems(2) by simp
  have step: "consumeChar parse \<lparr>state = IDLE, messageBuffer = buf\<rparr> x =
      (\<lparr>state = IDLE, messageBuffer = buf @ [x]\<rparr>, [])"
    using consumeChar_idle_keep[of "\<lparr>state = IDLE, messageBuffer = buf\<rparr>" x parse] n l
    by simp
  have "onData parse \<lparr>state = IDLE, messageBuffer = buf @ [x]\<rparr> xs =
      (\<lparr>state = IDLE, messageBuffer = (buf @ [x]) @ xs\<rparr>, [])"
    using Cons.prems by (intro Cons.IH) simp_all
  with step show ?case by simp
qed

lemma onData_start_delimiter:
  "onData parse fresh ''<SEND>'' = (\<lparr>state = RECEIVING, messageBuffer = ''<SEND>''\<rparr>, [])"
  by (simp add: fresh_def consumeChar_def)

lemma receiving_frames_rest:
  assumes "\<not> js_includes (buf @ r) ''</SEND>''" "suffix ''</SEND>'' (buf @ r @ [c])"
    and "length (buf @ r) \<le> 100000"
  shows "onData parse \<lparr>state = RECEIVING, messageBuffer = buf\<rparr> (r @ [c]) =
           (fresh, [event_of parse (buf @ r @ [c])])"
proof -
  have run: "onData parse \<lparr>state = RECEIVING, messageBuffer = buf\<rparr> r =
      (\<lparr>state = RECEIVING, messageBuffer = buf @ r\<rparr>, [])"
    using assms(1,3) by (rule receiving_run)
  have inc: "js_includes ((buf @ r) @ [c]) ''</SEND>''"
    using assms(2) by (simp add: js_includes_sublist suffix_imp_sublist)
  have fin: "consumeChar parse \<lparr>state = RECEIVING, messageBuffer = buf @ r\<rparr> c =
      (fresh, [event_of parse (buf @ r @ [c])])"
    using consumeChar_end[of "\<lparr>state = RECEIVING, messageBuffer = buf @ r\<rparr>" c parse] inc
    by (simp add: fresh_def)
  show ?thesis by (simp add: onData_append run fin)
qed

lemma fresh_frames_message:
  assumes "well_framed M" "length M \<le> 100001"
  shows "onData parse fresh M = (fresh, [event_of parse M])"
proof -
  from assms(1) have pre: "prefix ''<SEND>'' M" and suf: "suffix ''</SEND>'' M"
    and occ: "occurrences ''</SEND>'' M = 1" by (simp_all add: well_framed_def)
  from pre obtain r where M: "M = ''<SEND>'' @ r" by (auto simp: prefix_def)
  have "r \<noteq> []"
  proof
    assume "r = []"
    with M suf have "suffix ''</SEND>'' ''<SEND>''" by simp
    then show False by (auto dest: suffix_length_le)
  qed
  then obtain r' c where r: "r = r' @ [c]" by (cases r rule: rev_cases) auto
  have M': "M = (''<SEND>'' @ r') @ [c]" using M r by simp
  have "occurrences ''</SEND>'' (''<SEND>'' @ r') = 0"
    using occ suf occurrences_snoc[of "''</SEND>''" "''<SEND>'' @ r'" c] unfolding M' by simp
  then have n: "\<not> js_includes (''<SEND>'' @ r') ''</SEND>''"
    by (simp add: occurrences_zero)
  have l: "length (''<SEND>'' @ r') \<le> 100000" using assms(2) unfolding M' by simp
  have s: "suffix ''</SEND>'' (''<SEND>'' @ r' @ [c])" using suf M' by simp
  have recv: "onData parse \<lparr>state = RECEIVING, messageBuffer = ''<SEND>''\<rparr> (r' @ [c]) =
      (fresh, [event_of parse (''<SEND>'' @ r' @ [c])])"
    using n s l by (rule receiving_frames_rest)
  have "onData parse fresh (''<SEND>'' @ (r' @ [c])) =
      (fresh, [event_of parse (''<SEND>'' @ r' @ [c])])"
    by (subst onData_append) (simp add: onData_start_delimiter recv del: onData.simps)
  then show ?thesis unfolding M r .
qed

subsection \<open>Long inputs\<close>

lemma padding_no_end:
  "\<not> js_includes (replicate n (CHR ''a'') @ ''</SEND'') ''</SEND>''"
  by (induction n) simp_all

lemma padding_no_start:
  "\<not> js_includes (replicate n (CHR ''a'') @ ''<SEND'') ''<SEND>''"
  by (induction n) simp_all

lemma padding_no_end_a:
  "\<not> js_includes (replicate n (CHR ''a'') @ ''a'') ''</SEND>''"
  by (induction n) simp_all

lemma padded_no_end:
  "\<not> js_includes (''<SEND>'' @ replicate n (CHR ''a'') @ ''</SEND'') ''</SEND>''"
  using padding_no_end[of n] by simp

lemma padded_no_end':
  "\<not> js_includes (''<SEND>'' @ replicate n (CHR ''a'') @ ''</SEN'') ''</SEND>''"
  using padded_no_end[of n] js_includes_append_left[of "''<SEND>'' @ replicate n (CHR ''a'') @ ''</SEN''" "''</SEND>''" "''D''"]
  by auto

lemma padded_well_framed:
  "well_framed (''<SEND>'' @ replicate n (CHR ''a'') @ ''</SEND>'')"
proof -
  let ?buf = "''<SEND>'' @ replicate n (CHR ''a'') @ ''</SEND''"
  have eq: "''<SEND>'' @ replicate n (CHR ''a'') @ ''</SEND>'' = ?buf @ ''>''" by simp
  have s: "suffix ''</SEND>'' (?buf @ ''>'')"
    by (rule suffixI[of _ "''<SEND>'' @ replicate n (CHR ''a'')"]) simp
  have z: "occurrences ''</SEND>'' ?buf = 0"
    using padded_no_end[of n] by (subst occurrences_zero) simp_all
  have o: "occurrences ''</SEND>'' (?buf @ ''>'') = 1"
    using occurrences_snoc[of "''</SEND>''" ?buf "CHR ''>''"] s z by simp
  have p: "prefix ''<SEND>'' (?buf @ ''>'')" by simp
  show ?thesis unfolding eq well_framed_def using p s o by blast
qed

lemma overlong_message_lost:
  "onData parse fresh (''<SEND>'' @ replicate 99989 (CHR ''a'') @ ''</SEND>'') =
     (\<lparr>state = IDLE, messageBuffer = ''>''\<rparr>, [])"
proof -
  let ?pad = "replicate 99989 (CHR ''a'')"
  let ?buf = "''<SEND>'' @ ?pad @ ''</SEN''"
  have split: "''<SEND>'' @ ?pad @ ''</SEND>'' = ''<SEND>'' @ ((?pad @ ''</SEN'') @ (''D'' @ ''>''))"
    by simp
  have run: "onData parse \<lparr>state = RECEIVING, messageBuffer = ''<SEND>''\<rparr> (?pad @ ''</SEN'') =
      (\<lparr>state = RECEIVING, messageBuffer = ''<SEND>'' @ ?pad @ ''</SEN''\<rparr>, [])"
    by (rule receiving_run) (use padded_no_end'[of 99989] in \<open>simp_all\<close>)
  have n: "\<not> js_includes (?buf @ ''D'') ''</SEND>''"
    using padded_no_end[of 99989] by simp
  have ovf: "consumeChar parse \<lparr>state = RECEIVING, messageBuffer = ?buf\<rparr> (CHR ''D'') = (fresh, [])"
    using consumeChar_receiving_keep[of "\<lparr>state = RECEIVING, messageBuffer = ?buf\<rparr>" "CHR ''D''" parse] n
    by (simp add: fresh_def)
  have last: "consumeChar parse fresh (CHR ''>'') = (\<lparr>state = IDLE, messageBuffer = ''>''\<rparr>, [])"
    by (simp add: consumeChar_def fresh_def)
  have tail: "onData parse \<lparr>state = RECEIVING, messageBuffer = ?buf\<rparr> (''D'' @ ''>'') =
      (\<lparr>state = IDLE, messageBuffer = ''>''\<rparr>, [])"
    using ovf last by (simp)
  show ?thesis
    unfolding split
    by (subst onData_append, subst onData_append)
       (simp only: onData_start_delimiter run tail Let_def prod.case append_Nil)
qed

section \<open>Facts about the decoder\<close>

subsection \<open>Numbers\<close>

lemma bitlen_numeral [simp]:
  "bitlen 1 = 1"
  "bitlen (numeral (Num.Bit0 k)) = bitlen (numeral k) + 1"
  "bitlen (numeral (Num.Bit1 k)) = bitlen (numeral k) + 1"
proof -
  show "bitlen 1 = 1" by (subst compute_bitlen) simp
  have "numeral (Num.Bit0 k) div (2 :: int) = numeral k" by simp
  then show "bitlen (numeral (Num.Bit0 k)) = bitlen (numeral k) + 1"
    by (subst compute_bitlen) simp
  have "numeral (Num.Bit1 k) div (2 :: int) = numeral k" by simp
  then show "bitlen (numeral (Num.Bit1 k)) = bitlen (numeral k) + 1"
    by (subst compute_bitlen) simp
qed

lemmas number_value_eval =
  number_value_def decimal_value_def binade_def round_half_even_def pow2_def Let_def

lemma lit_5_7_value: "lit_5_7 = Fin (6417629469002957 / 1125899906842624)"
  by (simp add: lit_5_7_def number_value_eval)

lemma lit_6_5_value: "lit_6_5 = Fin (13 / 2)"
  by (simp add: lit_6_5_def number_value_eval)

lemma range_cases:
  "v \<noteq> NaN \<Longrightarrow> js_lt v lit_5_7 \<or> (js_le lit_5_7 v \<and> js_lt v lit_6_5) \<or> js_le lit_6_5 v"
  by (cases v) (auto simp: lit_5_7_value lit_6_5_value)

lemma Number_0: "js_Number (Some ''0'') = Fin 0"
  by code_simp

lemma Number_table:
  "js_Number (Some ''1'') = Fin 1" "js_Number (Some ''2'') = Fin 2"
  "js_Number (Some ''3'') = Fin 3" "js_Number (Some ''4'') = Fin 4"
  "js_Number (Some ''x'') = NaN" "js_Number (Some []) = Fin 0"
  "js_Number None = NaN"
  "js_Number (Some ''abc'') = NaN" "js_Number (Some '' '') = Fin 0"
  by code_simp+

lemma scan_5_4: "scan_unsigned ''5.4'' = Some (decimal_value 54 (- 1), [])"
  by code_simp

lemma scan_5_7: "scan_unsigned ''5.7'' = Some (decimal_value 57 (- 1), [])"
  by code_simp

lemma scan_6_5: "scan_unsigned ''6.5'' = Some (decimal_value 65 (- 1), [])"
  by code_simp

lemma parseFloat_5_4: "parseFloat ''5.4'' = Fin (3039929748475085 / 562949953421312)"
  by (simp add: parseFloat_def trimStart_def is_ws_def scan_decimal_def scan_5_4 number_value_eval)

lemma parseFloat_5_7: "parseFloat ''5.7'' = lit_5_7"
  by (simp add: parseFloat_def trimStart_def is_ws_def scan_decimal_def scan_5_7
      decimal_value_def lit_5_7_def)

lemma parseFloat_6_5: "parseFloat ''6.5'' = lit_6_5"
  by (simp add: parseFloat_def trimStart_def is_ws_def scan_decimal_def scan_6_5
      decimal_value_def lit_6_5_def)

lemma parseFloat_abc: "parseFloat ''abc'' = NaN"
  by code_simp

subsection \<open>The results object\<close>

lemma js_get_set: "js_get (js_set obj k v) k' = (if k' = k then Some v else js_get obj k')"
  by (auto simp: js_get_def js_set_def update_conv')

lemma js_get_empty: "js_get empty_obj k = None"
  by (simp add: js_get_def empty_obj_def)

lemma proto_key_no_own_property:
  "props (js_set obj ''__proto__'' v) = props obj"
  "js_get (js_set obj ''__proto__'' v) ''__proto__'' = Some v"
  by (simp_all add: js_set_def js_get_def)

lemma js_split_nonempty: "js_split s sep \<noteq> []"
  by (induction s) (auto split: list.splits)

lemma result_line_eq:
  "result_line res l =
     (if has_key_and_value l
      then js_set res (line_key l)
             \<lparr>value' = parseFloat (line_value l), unit = ''%'', interpretation' = None\<rparr>
      else res)"
proof (cases "js_split l (CHR ''|'')")
  case Nil
  then show ?thesis using js_split_nonempty[of l "CHR ''|''"] by simp
next
  case (Cons k rest)
  then show ?thesis
    by (cases rest)
       (auto simp: result_line_def has_key_and_value_def line_key_def line_value_def nth_opt_def)
qed



lemma js_get_foldl_result_line:
  "js_get (foldl result_line res ls) k =
     (let cs = filter (\<lambda>l. has_key_and_value l \<and> line_key l = k) ls
      in if cs = [] then js_get res k
         else Some \<lparr>value' = parseFloat (line_value (last cs)), unit = ''%'',
                    interpretation' = None\<rparr>)"
proof (induction ls rule: rev_induct)
  case Nil
  show ?case by simp
next
  case (snoc l ls)
  show ?case
    using snoc.IH by (auto simp: result_line_eq js_get_set Let_def)
qed



lemma js_get_clinical:
  "js_get (clinical res) k =
     (if k = ''HbA1c''
      then map_option
             (\<lambda>e. e\<lparr>interpretation' :=
                       Some (if js_lt (value' e) lit_5_7 then ''Normal''
                             else if js_lt (value' e) lit_6_5 then ''Prediabetes''
                             else ''Diabetes'')\<rparr>)
             (js_get res k)
      else js_get res k)"
  by (auto simp: clinical_def js_get_def update_conv' Let_def split: option.splits)

lemma clinical_empty: "clinical empty_obj = empty_obj"
  by (simp add: clinical_def js_get_def empty_obj_def)


subsection \<open>A match needs its tags\<close>

lemma rx_here_literal_prefix:
  "rx_here (map Chr t @ r) s = Some cap \<Longrightarrow> prefix t s"
proof (induction t arbitrary: s)
  case Nil
  then show ?case by simp
next
  case (Cons c t)
  then show ?case by (cases s) (auto split: if_splits)
qed

lemma rx_here_needs_literal:
  "rx_here (r1 @ map Chr t @ r2) s = Some cap \<Longrightarrow> js_includes s t"
proof (induction r1 arbitrary: s cap)
  case Nil
  then have "prefix t s" using rx_here_literal_prefix[of t r2 s cap] by simp
  then show ?case by (simp add: js_includes_sublist)
next
  case (Cons item r1)
  note outer = Cons.IH
  show ?case
  proof (cases item)
    case (Chr c)
    with Cons.prems outer show ?thesis by (cases s) (auto split: if_splits)
  next
    case (Greedy p)
    have "rx_here (Greedy p # r1 @ map Chr t @ r2) s = Some cap \<Longrightarrow> js_includes s t"
    proof (induction s arbitrary: cap)
      case Nil
      then show ?case using outer[of "[]" cap] by simp
    next
      case (Cons x xs)
      then show ?case using outer[of "x # xs" cap]
        by (auto split: if_splits option.splits)
    qed
    with Cons.prems Greedy show ?thesis by simp
  next
    case (CapLazy p)
    have "rx_here (CapLazy p # r1 @ map Chr t @ r2) s = Some cap \<Longrightarrow> js_includes s t"
    proof (induction s arbitrary: cap)
      case Nil
      then show ?case using outer[of "[]"] by (auto split: option.splits)
    next
      case (Cons x xs)
      then show ?case using outer[of "x # xs"]
        by (auto split: if_splits option.splits)
    qed
    with Cons.prems CapLazy show ?thesis by simp
  qed
qed

lemma js_match_needs_literal:
  "js_match (r1 @ map Chr t @ r2) s = Some cap \<Longrightarrow> js_includes s t"
proof (induction s)
  case Nil
  then show ?case using rx_here_needs_literal[of r1 t r2 "[]" cap] by simp
next
  case (Cons x xs)
  show ?case
  proof (cases "rx_here (r1 @ map Chr t @ r2) (x # xs)")
    case None
    with Cons show ?thesis by simp
  next
    case (Some a)
    then show ?thesis using rx_here_needs_literal[of r1 t r2 "x # xs" a] by simp
  qed
qed

lemma no_match_without_tags:
  "section_absent ''<M>'' ''</M>'' s \<Longrightarrow> js_match rx_M s = None"
  "section_absent ''<I>'' ''</I>'' s \<Longrightarrow> js_match rx_I s = None"
  "section_absent ''<R>'' ''</R>'' s \<Longrightarrow> js_match rx_R s = None"
proof -
  have M1: "js_match rx_M s = Some cap \<Longrightarrow> js_includes s ''<M>''" for cap
    using js_match_needs_literal[of "[]" "''<M>''" "[CapLazy rx_dot] @ map Chr ''</M>''" s cap]
    by (simp add: rx_M_def)
  have M2: "js_match rx_M s = Some cap \<Longrightarrow> js_includes s ''</M>''" for cap
    using js_match_needs_literal[of "map Chr ''<M>'' @ [CapLazy rx_dot]" "''</M>''" "[]" s cap]
    by (simp add: rx_M_def)
  have I1: "js_match rx_I s = Some cap \<Longrightarrow> js_includes s ''<I>''" for cap
    using js_match_needs_literal[of "[]" "''<I>''"
        "[Greedy is_ws, CapLazy (\<lambda>c. True), Greedy is_ws] @ map Chr ''</I>''" s cap]
    by (simp add: rx_I_def)
  have I2: "js_match rx_I s = Some cap \<Longrightarrow> js_includes s ''</I>''" for cap
    using js_match_needs_literal[of
        "map Chr ''<I>'' @ [Greedy is_ws, CapLazy (\<lambda>c. True), Greedy is_ws]" "''</I>''" "[]" s cap]
    by (simp add: rx_I_def)
  have R1: "js_match rx_R s = Some cap \<Longrightarrow> js_includes s ''<R>''" for cap
    using js_match_needs_literal[of "[]" "''<R>''"
        "[Greedy is_ws, CapLazy (\<lambda>c. True), Greedy is_ws] @ map Chr ''</R>''" s cap]
    by (simp add: rx_R_def)
  have R2: "js_match rx_R s = Some cap \<Longrightarrow> js_includes s ''</R>''" for cap
    using js_match_needs_literal[of
        "map Chr ''<R>'' @ [Greedy is_ws, CapLazy (\<lambda>c. True), Greedy is_ws]" "''</R>''" "[]" s cap]
    by (simp add: rx_R_def)
  show "section_absent ''<M>'' ''</M>'' s \<Longrightarrow> js_match rx_M s = None"
    using M1 M2 by (cases "js_match rx_M s") (auto simp: section_absent_def)
  show "section_absent ''<I>'' ''</I>'' s \<Longrightarrow> js_match rx_I s = None"
    using I1 I2 by (cases "js_match rx_I s") (auto simp: section_absent_def)
  show "section_absent ''<R>'' ''</R>'' s \<Longrightarrow> js_match rx_R s = None"
    using R1 R2 by (cases "js_match rx_R s") (auto simp: section_absent_def)
qed

subsection \<open>The fields of the decoded record\<close>

lemma parseProtocol_total: "\<exists>d. parseProtocol now raw' = Inr d"
  by (simp add: parseProtocol_def Let_def)

lemma parseProtocol_fields:
  assumes "parseProtocol now raw' = Inr d"
  shows "raw d = raw'" and "receivedAt d = now"
    and "machineInfo d =
          (case js_match rx_M (clean_text raw') of
             None \<Rightarrow> None
           | Some m1 \<Rightarrow>
               Some \<lparr>model = map_option trim (nth_opt (js_split m1 (CHR ''|'')) 0),
                     serialNumber = map_option trim (nth_opt (js_split m1 (CHR ''|'')) 1)\<rparr>)"
    and "sampleInfo d =
          (case js_match rx_I (clean_text raw') of
             None \<Rightarrow> None
           | Some i1 \<Rightarrow>
               Some \<lparr>recordType = nth_opt (js_split (trim i1) (CHR ''|'')) 0,
                     analysisTime = nth_opt (js_split (trim i1) (CHR ''|'')) 1,
                     sampleId = nth_opt (js_split (trim i1) (CHR ''|'')) 2,
                     samplePosition = nth_opt (js_split (trim i1) (CHR ''|'')) 3,
                     sampleTypeCode = js_Number (nth_opt (js_split (trim i1) (CHR ''|'')) 4),
                     sampleType =
                       (case typeMap (js_Number (nth_opt (js_split (trim i1) (CHR ''|'')) 4)) of
                          Some label \<Rightarrow> label
                        | None \<Rightarrow> ''unknown'')\<rparr>)"
    and "results d =
          clinical (case js_match rx_R (clean_text raw') of
                      None \<Rightarrow> empty_obj
                    | Some r1 \<Rightarrow> foldl result_line empty_obj (result_lines r1))"
  using assms by (auto simp: parseProtocol_def Let_def split: option.splits)

text \<open>
  The sample type as a function of the code: the table for the codes 0 to 3, and
  \<open>unknown\<close> for every other Number, which a missing fifth field gives.
\<close>

lemma sample_type_by_code:
  assumes "js_match rx_I (clean_text raw') = Some body"
  shows "\<exists>d si. parseProtocol now raw' = Inr d \<and> sampleInfo d = Some si \<and>
           (let parts = js_split (trim body) (CHR ''|'');
                code = js_Number (nth_opt parts 4)
            in sampleTypeCode si = code \<and>
               sampleType si =
                 (if code = Fin 0 then ''whole_blood''
                  else if code = Fin 1 then ''quality_control''
                  else if code = Fin 2 then ''calibration''
                  else if code = Fin 3 then ''diluted''
                  else ''unknown'') \<and>
               recordType si = nth_opt parts 0 \<and>
               analysisTime si = nth_opt parts 1 \<and>
               sampleId si = nth_opt parts 2 \<and>
               samplePosition si = nth_opt parts 3 \<and>
               (\<forall>i. length parts \<le> i \<longrightarrow> nth_opt parts i = None) \<and>
               (length parts \<le> 4 \<longrightarrow> code = NaN \<and> sampleType si = ''unknown''))"
proof -
  obtain d where d: "parseProtocol now raw' = Inr d"
    using parseProtocol_total by blast
  have n: "js_Number None = NaN" by (simp add: js_Number_def)
  show ?thesis
    using parseProtocol_fields(4)[OF d] assms d n
    by (auto simp: Let_def typeMap_def nth_opt_def)
qed

lemma no_hba1c_no_interpretation:
  assumes "parseProtocol now raw' = Inr d" and "js_get (results d) ''HbA1c'' = None"
    and "js_get (results d) key = Some e"
  shows "interpretation' e = None"
proof -
  obtain res where r: "results d = clinical res"
    and c: "res = empty_obj \<or> (\<exists>ls. res = foldl result_line empty_obj ls)"
    using parseProtocol_fields(5)[OF assms(1)] by (auto split: option.splits)
  have k: "key \<noteq> ''HbA1c''" using assms(2,3) by auto
  with assms(3) have g: "js_get res key = Some e" by (simp add: r js_get_clinical)
  from c show ?thesis
  proof
    assume "res = empty_obj"
    with g show ?thesis by (simp add: js_get_empty)
  next
    assume "\<exists>ls. res = foldl result_line empty_obj ls"
    then obtain ls where "res = foldl result_line empty_obj ls" ..
    with g show ?thesis
      by (auto simp: js_get_foldl_result_line js_get_empty Let_def split: if_splits)
  qed
qed

lemma nan_hba1c_labelled_diabetes:
  assumes "parseProtocol now raw' = Inr d" and "js_get (results d) ''HbA1c'' = Some e"
    and "value' e = NaN"
  shows "interpretation' e = Some ''Diabetes''"
proof -
  obtain res where r: "results d = clinical res"
    using parseProtocol_fields(5)[OF assms(1)] by blast
  from assms(2,3) show ?thesis
    unfolding r js_get_clinical by auto
qed

subsection \<open>The example inputs, evaluated\<close>

text \<open>
  The end-to-end scenario of the specification; a message whose HbA1c value is no
  number; a value on the bound of a range; a message with no section; sample records
  with missing fields and with an empty code, which \<open>Number\<close> converts to 0.
\<close>

lemma example_clean: "clean_text example_message = example_message"
  by code_simp

lemma example_M: "js_match rx_M example_message = Some ''GQ-1000|SN123''"
  by code_simp

lemma example_I: "js_match rx_I example_message = Some ''0|2024-01-01T10:00|S1|A1|0''"
  by code_simp

lemma example_R: "js_match rx_R example_message = Some ''HbA1c|5.4''"
  by code_simp

lemma example_machine:
  "js_split ''GQ-1000|SN123'' (CHR ''|'') = [''GQ-1000'', ''SN123'']"
  "trim ''GQ-1000'' = ''GQ-1000''" "trim ''SN123'' = ''SN123''"
  by code_simp+

lemma example_fields:
  "js_split (trim ''0|2024-01-01T10:00|S1|A1|0'') (CHR ''|'') =
     [''0'', ''2024-01-01T10:00'', ''S1'', ''A1'', ''0'']"
  by code_simp

lemma example_lines: "result_lines ''HbA1c|5.4'' = [''HbA1c|5.4'']"
  by code_simp

lemma example_line_fields: "js_split ''HbA1c|5.4'' (CHR ''|'') = [''HbA1c'', ''5.4'']"
  by code_simp

lemma parse_example:
  "parseProtocol now example_message = Inr
     \<lparr>machineInfo = Some \<lparr>model = Some ''GQ-1000'', serialNumber = Some ''SN123''\<rparr>,
      sampleInfo = Some \<lparr>recordType = Some ''0'', analysisTime = Some ''2024-01-01T10:00'',
         sampleId = Some ''S1'', samplePosition = Some ''A1'',
         sampleTypeCode = Fin 0, sampleType = ''whole_blood''\<rparr>,
      results = \<lparr>props = [(''HbA1c'', \<lparr>value' = Fin (3039929748475085 / 562949953421312),
                     unit = ''%'', interpretation' = Some ''Normal''\<rparr>)], proto = None\<rparr>,
      raw = example_message, receivedAt = now\<rparr>"
  by (simp add: parseProtocol_def Let_def example_clean example_M example_I example_R
      example_machine example_fields nth_opt_def Number_0 typeMap_def example_lines
      result_line_def example_line_fields js_set_def empty_obj_def parseFloat_5_4
      clinical_def js_get_def lit_5_7_value lit_6_5_value)

lemma garbled_clean: "clean_text garbled_message = garbled_message"
  by code_simp

lemma garbled_M: "js_match rx_M garbled_message = None"
  by code_simp

lemma garbled_I: "js_match rx_I garbled_message = None"
  by code_simp

lemma garbled_R:
  "js_match rx_R garbled_message = Some (''HbA1c|abc'' @ [LF] @ [LF] @ ''Hb|'' @ [LF] @ ''|7'')"
  by code_simp


lemma garbled_lines:
  "result_lines (''HbA1c|abc'' @ [LF] @ [LF] @ ''Hb|'' @ [LF] @ ''|7'') =
     [''HbA1c|abc'', ''Hb|'', ''|7'']"
  by code_simp

lemma garbled_fields:
  "js_split ''HbA1c|abc'' (CHR ''|'') = [''HbA1c'', ''abc'']"
  "js_split ''Hb|'' (CHR ''|'') = [''Hb'', []]"
  "js_split ''|7'' (CHR ''|'') = [[], ''7'']"
  by code_simp+

lemma parse_garbled:
  "parseProtocol now garbled_message = Inr
     \<lparr>machineInfo = None, sampleInfo = None,
      results = \<lparr>props = [(''HbA1c'', \<lparr>value' = NaN, unit = ''%'',
                     interpretation' = Some ''Diabetes''\<rparr>)], proto = None\<rparr>,
      raw = garbled_message, receivedAt = now\<rparr>"
  by (simp add: parseProtocol_def Let_def garbled_clean garbled_M garbled_I garbled_R
      garbled_lines[simplified] result_line_def garbled_fields nth_opt_def js_set_def empty_obj_def
      parseFloat_abc clinical_def js_get_def lit_5_7_value lit_6_5_value)

lemma boundary_clean: "clean_text boundary_message = boundary_message"
  by code_simp

lemma boundary_M: "js_match rx_M boundary_message = None"
  by code_simp

lemma boundary_I: "js_match rx_I boundary_message = None"
  by code_simp

lemma boundary_R: "js_match rx_R boundary_message = Some ''HbA1c|5.7''"
  by code_simp

lemma boundary_lines: "result_lines ''HbA1c|5.7'' = [''HbA1c|5.7'']"
  by code_simp

lemma boundary_fields: "js_split ''HbA1c|5.7'' (CHR ''|'') = [''HbA1c'', ''5.7'']"
  by code_simp

lemma parse_boundary:
  "parseProtocol now boundary_message = Inr
     \<lparr>machineInfo = None, sampleInfo = None,
      results = \<lparr>props = [(''HbA1c'', \<lparr>value' = lit_5_7, unit = ''%'',
                     interpretation' = Some ''Prediabetes''\<rparr>)], proto = None\<rparr>,
      raw = boundary_message, receivedAt = now\<rparr>"
  by (simp add: parseProtocol_def Let_def boundary_clean boundary_M boundary_I boundary_R
      boundary_lines result_line_def boundary_fields nth_opt_def js_set_def empty_obj_def
      parseFloat_5_7 clinical_def js_get_def lit_5_7_value lit_6_5_value)

lemma bare_clean: "clean_text bare_message = bare_message"
  by code_simp

lemma bare_absent:
  "section_absent ''<M>'' ''</M>'' bare_message"
  "section_absent ''<I>'' ''</I>'' bare_message"
  "section_absent ''<R>'' ''</R>'' bare_message"
  by (simp_all add: section_absent_def bare_message_def)

lemma short_clean: "clean_text short_sample_message = short_sample_message"
  by code_simp

lemma short_I: "js_match rx_I short_sample_message = Some ''0|10:00''"
  by code_simp

lemma short_fields: "js_split (trim ''0|10:00'') (CHR ''|'') = [''0'', ''10:00'']"
  by code_simp

lemma empty_code_clean: "clean_text empty_code_message = empty_code_message"
  by code_simp

lemma empty_code_matches:
  "js_match rx_M empty_code_message = None"
  "js_match rx_I empty_code_message = Some ''0|10:00|S1|A1|''"
  "js_match rx_R empty_code_message = None"
  by code_simp+

lemma empty_code_fields:
  "js_split (trim ''0|10:00|S1|A1|'') (CHR ''|'') = [''0'', ''10:00'', ''S1'', ''A1'', []]"
  by code_simp

lemma parse_empty_code:
  "parseProtocol now empty_code_message = Inr
     \<lparr>machineInfo = None,
      sampleInfo = Some \<lparr>recordType = Some ''0'', analysisTime = Some ''10:00'',
         sampleId = Some ''S1'', samplePosition = Some ''A1'',
         sampleTypeCode = Fin 0, sampleType = ''whole_blood''\<rparr>,
      results = empty_obj, raw = empty_code_message, receivedAt = now\<rparr>"
  by (simp add: parseProtocol_def Let_def empty_code_clean empty_code_matches
      empty_code_fields nth_opt_def Number_table typeMap_def clinical_empty)

lemma unparsable_code_clean: "clean_text unparsable_code_message = unparsable_code_message"
  by code_simp

lemma unparsable_code_matches:
  "js_match rx_M unparsable_code_message = None"
  "js_match rx_I unparsable_code_message = Some ''0|10:00|S1|A1|abc''"
  "js_match rx_R unparsable_code_message = None"
  by code_simp+

lemma unparsable_code_fields:
  "js_split (trim ''0|10:00|S1|A1|abc'') (CHR ''|'') = [''0'', ''10:00'', ''S1'', ''A1'', ''abc'']"
  by code_simp

lemma parse_unparsable_code:
  "parseProtocol now unparsable_code_message = Inr
     \<lparr>machineInfo = None,
      sampleInfo = Some \<lparr>recordType = Some ''0'', analysisTime = Some ''10:00'',
         sampleId = Some ''S1'', samplePosition = Some ''A1'',
         sampleTypeCode = NaN, sampleType = ''unknown''\<rparr>,
      results = empty_obj, raw = unparsable_code_message, receivedAt = now\<rparr>"
  by (simp add: parseProtocol_def Let_def unparsable_code_clean unparsable_code_matches
      unparsable_code_fields nth_opt_def Number_table typeMap_def clinical_empty)

lemma short_matches:
  "js_match rx_M short_sample_message = None"
  "js_match rx_R short_sample_message = None"
  by code_simp+

lemma parse_short_sample:
  "parseProtocol now short_sample_message = Inr
     \<lparr>machineInfo = None,
      sampleInfo = Some \<lparr>recordType = Some ''0'', analysisTime = Some ''10:00'',
         sampleId = None, samplePosition = None,
         sampleTypeCode = NaN, sampleType = ''unknown''\<rparr>,
      results = empty_obj, raw = short_sample_message, receivedAt = now\<rparr>"
  by (simp add: parseProtocol_def Let_def short_clean short_I short_matches
      short_fields nth_opt_def Number_table typeMap_def clinical_empty)

section \<open>The claims\<close>

text \<open>
  Claim C1 does not hold of the code. A results line \<open>HbA1c|abc\<close> gives an entry whose
  value is not-a-number; both comparisons of the clinical interpretation are then false
  and the last branch labels the entry \<open>Diabetes\<close>.
\<close>

theorem C1_nan_labelled_diabetes:
  "parseProtocol ''t'' garbled_message = Inr
     \<lparr>machineInfo = None, sampleInfo = None,
      results = \<lparr>props = [(''HbA1c'', \<lparr>value' = NaN, unit = ''%'',
                     interpretation' = Some ''Diabetes''\<rparr>)], proto = None\<rparr>,
      raw = garbled_message, receivedAt = ''t''\<rparr> \<and>
   parseFloat ''abc'' = NaN"
  by (simp add: parse_garbled parseFloat_abc)

text \<open>
  Claim C2. When the decoded results hold an entry \<open>HbA1c\<close> whose value \<open>v\<close> is a
  number, its interpretation is \<open>Normal\<close> for \<open>v < 5.7\<close>, \<open>Prediabetes\<close> for
  \<open>5.7 \<le> v < 6.5\<close> and \<open>Diabetes\<close> for \<open>6.5 \<le> v\<close>, and one of the three cases holds; the
  values \<open>5.7\<close> and \<open>6.5\<close> themselves give \<open>Prediabetes\<close> and \<open>Diabetes\<close>.
\<close>

theorem C2_hba1c_ranges:
  assumes "parseProtocol now raw' = Inr d"
    and "js_get (results d) ''HbA1c'' = Some e"
    and "value' e \<noteq> NaN"
  shows "(js_lt (value' e) lit_5_7 \<longrightarrow> interpretation' e = Some ''Normal'') \<and>
         (js_le lit_5_7 (value' e) \<and> js_lt (value' e) lit_6_5 \<longrightarrow>
            interpretation' e = Some ''Prediabetes'') \<and>
         (js_le lit_6_5 (value' e) \<longrightarrow> interpretation' e = Some ''Diabetes'') \<and>
         (js_lt (value' e) lit_5_7 \<or>
          js_le lit_5_7 (value' e) \<and> js_lt (value' e) lit_6_5 \<or>
          js_le lit_6_5 (value' e)) \<and>
         (value' e = lit_5_7 \<longrightarrow> interpretation' e = Some ''Prediabetes'') \<and>
         (value' e = lit_6_5 \<longrightarrow> interpretation' e = Some ''Diabetes'')"
proof -
  obtain res where res: "results d = clinical res"
    using parseProtocol_fields(5)[OF assms(1)] by blast
  from assms(2) obtain e0 where
    e: "e = e0\<lparr>interpretation' :=
                 Some (if js_lt (value' e0) lit_5_7 then ''Normal''
                       else if js_lt (value' e0) lit_6_5 then ''Prediabetes''
                       else ''Diabetes'')\<rparr>"
    unfolding res js_get_clinical by auto
  then have v: "value' e = value' e0" by simp
  have i: "interpretation' e =
      Some (if js_lt (value' e) lit_5_7 then ''Normal''
            else if js_lt (value' e) lit_6_5 then ''Prediabetes''
            else ''Diabetes'')"
    by (subst e) (simp add: v[symmetric] e[symmetric])
  show ?thesis
    using assms(3) unfolding i
    by (cases "value' e") (auto simp: lit_5_7_value lit_6_5_value)
qed

theorem C2_witness:
  "parseProtocol ''t'' boundary_message = Inr
     \<lparr>machineInfo = None, sampleInfo = None,
      results = \<lparr>props = [(''HbA1c'', \<lparr>value' = parseFloat ''5.7'', unit = ''%'',
                     interpretation' = Some ''Prediabetes''\<rparr>)], proto = None\<rparr>,
      raw = boundary_message, receivedAt = ''t''\<rparr> \<and>
   parseFloat ''5.7'' = lit_5_7 \<and> lit_5_7 \<noteq> NaN \<and>
   js_le lit_5_7 (parseFloat ''5.7'') \<and> js_lt (parseFloat ''5.7'') lit_6_5"
proof -
  let ?e = "\<lparr>value' = lit_5_7, unit = ''%'', interpretation' = Some ''Prediabetes''\<rparr>"
  let ?d = "\<lparr>machineInfo = None, sampleInfo = None,
      results = \<lparr>props = [(''HbA1c'', ?e)], proto = None\<rparr>,
      raw = boundary_message, receivedAt = ''t''\<rparr>"
  have p: "parseProtocol ''t'' boundary_message = Inr ?d" by (rule parse_boundary)
  have g: "js_get (results ?d) ''HbA1c'' = Some ?e" by (simp add: js_get_def)
  have n: "value' ?e \<noteq> NaN" by (simp add: lit_5_7_value)
  from C2_hba1c_ranges[OF p g n] p n show ?thesis
    by (simp add: parseFloat_5_7 lit_5_7_value lit_6_5_value)
qed

text \<open>
  Claim C3 does not hold of the code. The sample type is the table entry of
  \<open>Number(parts[4])\<close>, with \<open>unknown\<close> where the table has none. A fifth field that is
  no number, and a missing one, give not-a-number and so \<open>unknown\<close>; but \<open>Number("")\<close> is
  0, so a sample record that ends with an empty fifth field, which is the code of no
  sample type, is decoded as \<open>whole_blood\<close>.
\<close>

theorem C3_empty_code_whole_blood:
  "parseProtocol ''t'' empty_code_message = Inr
     \<lparr>machineInfo = None,
      sampleInfo = Some \<lparr>recordType = Some ''0'', analysisTime = Some ''10:00'',
         sampleId = Some ''S1'', samplePosition = Some ''A1'',
         sampleTypeCode = Fin 0, sampleType = ''whole_blood''\<rparr>,
      results = empty_obj, raw = empty_code_message, receivedAt = ''t''\<rparr> \<and>
   empty_code_message = ''<SEND><I>0|10:00|S1|A1|</I></SEND>'' \<and>
   js_split (trim ''0|10:00|S1|A1|'') (CHR ''|'') = [''0'', ''10:00'', ''S1'', ''A1'', []] \<and>
   js_Number (Some []) = Fin 0 \<and>
   parseProtocol ''t'' unparsable_code_message = Inr
     \<lparr>machineInfo = None,
      sampleInfo = Some \<lparr>recordType = Some ''0'', analysisTime = Some ''10:00'',
         sampleId = Some ''S1'', samplePosition = Some ''A1'',
         sampleTypeCode = NaN, sampleType = ''unknown''\<rparr>,
      results = empty_obj, raw = unparsable_code_message, receivedAt = ''t''\<rparr> \<and>
   unparsable_code_message = ''<SEND><I>0|10:00|S1|A1|abc</I></SEND>'' \<and>
   js_Number (Some ''abc'') = NaN"
proof -
  note a = parse_empty_code[of "''t''"]
  note b = parse_unparsable_code[of "''t''"]
  note c = empty_code_fields
  note n = Number_table(6) Number_table(8)
  from a b c n empty_code_message_def unparsable_code_message_def show ?thesis
    by blast
qed

text \<open>
  Claim C4, as amended. A complete message of the wire format of at most 100,001
  characters, cut into chunks at any character boundaries and fed in order to a fresh
  framer, makes it hand exactly that message to the decoder once, and leaves the framer
  as a fresh one. (A longer message trips the overflow protection before its end
  delimiter arrives.)
\<close>

theorem C4_chunked_message_framed:
  assumes "well_framed M" and "length M \<le> 100001" and "concat chunks = M"
  shows "onChunks parse fresh chunks = (fresh, [event_of parse M])"
  using assms fresh_frames_message[of M parse] by (simp add: onChunks_concat)

theorem C4_witness:
  "well_framed ''<SEND>abc</SEND>'' \<and>
   onChunks (parseProtocol ''t'') fresh [''<SE'', ''ND>ab'', [], ''c</SE'', ''ND>''] =
     (fresh, [event_of (parseProtocol ''t'') ''<SEND>abc</SEND>''])"
proof -
  have w: "well_framed ''<SEND>abc</SEND>''"
    by (simp add: well_framed_def suffix_def)
  show ?thesis
    using w C4_chunked_message_framed[of "''<SEND>abc</SEND>''"
        "[''<SE'', ''ND>ab'', [], ''c</SE'', ''ND>'']" "parseProtocol ''t''"]
    by simp
qed

text \<open>
  Claim C4 as stated fails: a complete message of 100,002 characters, delivered in one
  chunk, is never handed over.
\<close>

theorem C4_counterexample:
  "well_framed (''<SEND>'' @ replicate 99989 (CHR ''a'') @ ''</SEND>'') \<and>
   onChunks (parseProtocol ''t'') fresh [''<SEND>'' @ replicate 99989 (CHR ''a'') @ ''</SEND>''] =
     (\<lparr>state = IDLE, messageBuffer = ''>''\<rparr>, [])"
  using padded_well_framed[of 99989] overlong_message_lost[of "parseProtocol ''t''"]
  by (simp only: onChunks_concat concat.simps append_Nil2 simp_thms)

text \<open>
  Claim C5, as amended. In either state, when the buffer with the character appended
  is longer than 100,000 characters and the character completes neither the start
  delimiter (while idle) nor the end delimiter (while receiving), the framer resets to
  \<open>IDLE\<close> with an empty buffer and emits nothing; no error is raised on any path of
  \<open>consumeChar\<close>. From then on it behaves as a fresh framer: in particular it frames a
  complete message that follows. A character that completes a delimiter takes the
  transition of the delimiter first, whatever the length of the buffer: while idle, the
  framer starts to receive with the buffer \<open><SEND>\<close> and emits nothing; while receiving,
  it emits the event of the whole buffer, as one message, and is fresh again.
\<close>

theorem C5_overflow_reset:
  "(length (messageBuffer this @ [c]) > 100000 \<and>
    \<not> (state this = IDLE \<and> js_includes (messageBuffer this @ [c]) ''<SEND>'') \<and>
    \<not> (state this = RECEIVING \<and> js_includes (messageBuffer this @ [c]) ''</SEND>'') \<longrightarrow>
      consumeChar parse this c = (fresh, []) \<and>
      onData parse this (c # rest) = onData parse fresh rest \<and>
      (well_framed M \<and> length M \<le> 100001 \<longrightarrow>
         onData parse this (c # M) = (fresh, [event_of parse M]))) \<and>
   (state this = IDLE \<and> js_includes (messageBuffer this @ [c]) ''<SEND>'' \<longrightarrow>
      consumeChar parse this c = (\<lparr>state = RECEIVING, messageBuffer = ''<SEND>''\<rparr>, []) \<and>
      onData parse this (c # rest) =
        onData parse \<lparr>state = RECEIVING, messageBuffer = ''<SEND>''\<rparr> rest) \<and>
   (state this = RECEIVING \<and> js_includes (messageBuffer this @ [c]) ''</SEND>'' \<longrightarrow>
      consumeChar parse this c = (fresh, [event_of parse (messageBuffer this @ [c])]) \<and>
      onData parse this (c # rest) =
        (fst (onData parse fresh rest),
         event_of parse (messageBuffer this @ [c]) # snd (onData parse fresh rest)))"
proof (intro conjI impI)
  assume a: "length (messageBuffer this @ [c]) > 100000 \<and>
    \<not> (state this = IDLE \<and> js_includes (messageBuffer this @ [c]) ''<SEND>'') \<and>
    \<not> (state this = RECEIVING \<and> js_includes (messageBuffer this @ [c]) ''</SEND>'')"
  then show step: "consumeChar parse this c = (fresh, [])"
    by (cases "state this") (simp_all add: consumeChar_def fresh_def)
  then show "onData parse this (c # rest) = onData parse fresh rest"
    by simp
  assume "well_framed M \<and> length M \<le> 100001"
  with step fresh_frames_message[of M parse]
  show "onData parse this (c # M) = (fresh, [event_of parse M])"
    by simp
next
  assume a: "state this = IDLE \<and> js_includes (messageBuffer this @ [c]) ''<SEND>''"
  then show step: "consumeChar parse this c =
      (\<lparr>state = RECEIVING, messageBuffer = ''<SEND>''\<rparr>, [])"
    using consumeChar_start[of this c parse] by simp
  then show "onData parse this (c # rest) =
      onData parse \<lparr>state = RECEIVING, messageBuffer = ''<SEND>''\<rparr> rest"
    by simp
next
  assume a: "state this = RECEIVING \<and> js_includes (messageBuffer this @ [c]) ''</SEND>''"
  then show step: "consumeChar parse this c =
      (fresh, [event_of parse (messageBuffer this @ [c])])"
    using consumeChar_end[of this c parse] by (simp add: fresh_def)
  then show "onData parse this (c # rest) =
      (fst (onData parse fresh rest),
       event_of parse (messageBuffer this @ [c]) # snd (onData parse fresh rest))"
    by (simp add: case_prod_beta)
qed

theorem C5_witness:
  "(length (messageBuffer \<lparr>state = RECEIVING, messageBuffer = ''<SEND>'' @ replicate 99994 (CHR ''a'')\<rparr> @ ''a'') > 100000 \<and>
    consumeChar (parseProtocol ''t'')
      \<lparr>state = RECEIVING, messageBuffer = ''<SEND>'' @ replicate 99994 (CHR ''a'')\<rparr> (CHR ''a'') =
      (fresh, []) \<and>
    onData (parseProtocol ''t'')
      \<lparr>state = RECEIVING, messageBuffer = ''<SEND>'' @ replicate 99994 (CHR ''a'')\<rparr>
      (CHR ''a'' # ''<SEND>abc</SEND>'') =
      (fresh, [event_of (parseProtocol ''t'') ''<SEND>abc</SEND>''])) \<and>
   (length (replicate 99995 (CHR ''b'') @ ''<SEND'') = 100000 \<and>
    js_includes ((replicate 99995 (CHR ''b'') @ ''<SEND'') @ ''>'') ''<SEND>'' \<and>
    consumeChar (parseProtocol ''t'')
      \<lparr>state = IDLE, messageBuffer = replicate 99995 (CHR ''b'') @ ''<SEND''\<rparr> (CHR ''>'') =
      (\<lparr>state = RECEIVING, messageBuffer = ''<SEND>''\<rparr>, [])) \<and>
   (length (''<SEND>'' @ replicate 99988 (CHR ''b'') @ ''</SEND'') = 100000 \<and>
    js_includes ((''<SEND>'' @ replicate 99988 (CHR ''b'') @ ''</SEND'') @ ''>'') ''</SEND>'' \<and>
    consumeChar (parseProtocol ''t'')
      \<lparr>state = RECEIVING, messageBuffer = ''<SEND>'' @ replicate 99988 (CHR ''b'') @ ''</SEND''\<rparr>
      (CHR ''>'') =
      (fresh, [event_of (parseProtocol ''t'')
                 ((''<SEND>'' @ replicate 99988 (CHR ''b'') @ ''</SEND'') @ ''>'')]))"
proof -
  let ?f = "\<lparr>state = RECEIVING, messageBuffer = ''<SEND>'' @ replicate 99994 (CHR ''a'')\<rparr>"
  let ?junk = "replicate 99995 (CHR ''b'') @ ''<SEND''"
  let ?g = "\<lparr>state = IDLE, messageBuffer = ?junk\<rparr>"
  let ?body = "''<SEND>'' @ replicate 99988 (CHR ''b'') @ ''</SEND''"
  let ?h = "\<lparr>state = RECEIVING, messageBuffer = ?body\<rparr>"
  have l: "length (messageBuffer ?f @ ''a'') > 100000" by simp
  have i: "\<not> (state ?f = IDLE \<and> js_includes (messageBuffer ?f @ ''a'') ''<SEND>'')"
    by simp
  have r: "\<not> (state ?f = RECEIVING \<and> js_includes (messageBuffer ?f @ ''a'') ''</SEND>'')"
    using padding_no_end_a[of 99994] by simp
  have w: "well_framed ''<SEND>abc</SEND>''"
    by (simp add: well_framed_def suffix_def)
  have n: "length ''<SEND>abc</SEND>'' \<le> 100001" by simp
  from C5_overflow_reset[of ?f "CHR ''a''" "parseProtocol ''t''" "[]" "''<SEND>abc</SEND>''"]
    l i r w n
  have p1: "consumeChar (parseProtocol ''t'') ?f (CHR ''a'') = (fresh, []) \<and>
      onData (parseProtocol ''t'') ?f (CHR ''a'' # ''<SEND>abc</SEND>'') =
      (fresh, [event_of (parseProtocol ''t'') ''<SEND>abc</SEND>''])"
    by blast
  have lg: "length ?junk = 100000" by simp
  have ig: "js_includes (?junk @ ''>'') ''<SEND>''"
    unfolding js_includes_sublist
    by (rule suffix_imp_sublist, rule suffixI[of _ "replicate 99995 (CHR ''b'')"]) simp
  have sg: "state ?g = IDLE" and bg: "messageBuffer ?g = ?junk" by simp_all
  from C5_overflow_reset[of ?g "CHR ''>''" "parseProtocol ''t''" "[]" "[]"] sg ig
  have p2: "consumeChar (parseProtocol ''t'') ?g (CHR ''>'') =
      (\<lparr>state = RECEIVING, messageBuffer = ''<SEND>''\<rparr>, [])"
    unfolding bg by blast
  have lh: "length ?body = 100000" by simp
  have ih: "js_includes (?body @ ''>'') ''</SEND>''"
    unfolding js_includes_sublist
    by (rule suffix_imp_sublist, rule suffixI[of _ "''<SEND>'' @ replicate 99988 (CHR ''b'')"]) simp
  have sh: "state ?h = RECEIVING" and bh: "messageBuffer ?h = ?body" by simp_all
  from C5_overflow_reset[of ?h "CHR ''>''" "parseProtocol ''t''" "[]" "[]"] sh ih
  have p3: "consumeChar (parseProtocol ''t'') ?h (CHR ''>'') =
      (fresh, [event_of (parseProtocol ''t'') (?body @ ''>'')])"
    unfolding bh by blast
  from l p1 lg ig p2 lh ih p3 show ?thesis by blast
qed

text \<open>
  Claim C5 as stated fails in both states. With a buffer of 100,000 characters the
  character that completes the start delimiter takes the framer to \<open>RECEIVING\<close>, not to
  \<open>IDLE\<close>; and a message of 100,001 characters is emitted by the character that
  completes its end delimiter.
\<close>

theorem C5_counterexample:
  "length ((replicate 99995 (CHR ''a'') @ ''<SEND'') @ ''>'') > 100000 \<and>
   onData (parseProtocol ''t'') fresh (replicate 99995 (CHR ''a'') @ ''<SEND'') =
     (\<lparr>state = IDLE, messageBuffer = replicate 99995 (CHR ''a'') @ ''<SEND''\<rparr>, []) \<and>
   consumeChar (parseProtocol ''t'')
     \<lparr>state = IDLE, messageBuffer = replicate 99995 (CHR ''a'') @ ''<SEND''\<rparr> (CHR ''>'') =
     (\<lparr>state = RECEIVING, messageBuffer = ''<SEND>''\<rparr>, []) \<and>
   length (''<SEND>'' @ replicate 99988 (CHR ''a'') @ ''</SEND>'') > 100000 \<and>
   onData (parseProtocol ''t'') fresh (''<SEND>'' @ replicate 99988 (CHR ''a'') @ ''</SEND>'') =
     (fresh, [event_of (parseProtocol ''t'') (''<SEND>'' @ replicate 99988 (CHR ''a'') @ ''</SEND>'')])"
proof -
  let ?junk = "replicate 99995 (CHR ''a'') @ ''<SEND''"
  have l: "length (?junk @ ''>'') > 100000" by simp
  have run: "onData (parseProtocol ''t'') \<lparr>state = IDLE, messageBuffer = []\<rparr> ?junk =
      (\<lparr>state = IDLE, messageBuffer = [] @ ?junk\<rparr>, [])"
    by (rule idle_run) (use padding_no_start[of 99995] in simp_all)
  have inc: "js_includes (?junk @ ''>'') ''<SEND>''"
    unfolding js_includes_sublist
    by (rule suffix_imp_sublist, rule suffixI[of _ "replicate 99995 (CHR ''a'')"]) simp
  have start: "consumeChar (parseProtocol ''t'') \<lparr>state = IDLE, messageBuffer = ?junk\<rparr> (CHR ''>'') =
      (\<lparr>state = RECEIVING, messageBuffer = ''<SEND>''\<rparr>, [])"
    using consumeChar_start[of "\<lparr>state = IDLE, messageBuffer = ?junk\<rparr>" "CHR ''>''" "parseProtocol ''t''"] inc
    by simp
  have l2: "length (''<SEND>'' @ replicate 99988 (CHR ''a'') @ ''</SEND>'') > 100000" by simp
  have l3: "length (''<SEND>'' @ replicate 99988 (CHR ''a'') @ ''</SEND>'') \<le> 100001" by simp
  have msg: "onData (parseProtocol ''t'') fresh (''<SEND>'' @ replicate 99988 (CHR ''a'') @ ''</SEND>'') =
     (fresh, [event_of (parseProtocol ''t'') (''<SEND>'' @ replicate 99988 (CHR ''a'') @ ''</SEND>'')])"
    using padded_well_framed[of 99988] l3 by (rule fresh_frames_message)
  from run have run': "onData (parseProtocol ''t'') fresh ?junk =
      (\<lparr>state = IDLE, messageBuffer = ?junk\<rparr>, [])"
    by (simp only: fresh_def append_Nil)
  from l run' start l2 msg show ?thesis by blast
qed



text \<open>
  Claim C7. Whatever was fed to a fresh framer before, the character that takes it from
  \<open>IDLE\<close> to \<open>RECEIVING\<close> leaves exactly \<open><SEND>\<close> in the buffer and emits nothing, so the
  messages handed over later are those of a framer that has seen the start delimiter
  only: nothing that preceded the start delimiter is part of them.
\<close>

theorem C7_leading_bytes_discarded:
  assumes "state (fst (onData parse fresh pre)) = IDLE"
    and "state (fst (onData parse fresh (pre @ [c]))) = RECEIVING"
  shows "fst (onData parse fresh (pre @ [c])) = \<lparr>state = RECEIVING, messageBuffer = ''<SEND>''\<rparr> \<and>
         completeMessages fresh (pre @ [c]) = completeMessages fresh pre \<and>
         completeMessages fresh (pre @ c # rest) =
           completeMessages fresh pre @
           completeMessages \<lparr>state = RECEIVING, messageBuffer = ''<SEND>''\<rparr> rest"
proof -
  let ?p = "\<lambda>m. (Inr m :: unit + string)"
  obtain f out where pre: "onData ?p fresh pre = (f, out)" by (cases "onData ?p fresh pre")
  have f: "f = fst (onData parse fresh pre)"
    using fst_onData_parse[of ?p fresh pre parse] pre by simp
  have idle: "state f = IDLE" using assms(1) f by simp
  have "fst (onData parse fresh (pre @ [c])) = fst (onData ?p fresh (pre @ [c]))"
    by (rule fst_onData_parse)
  also have "\<dots> = fst (consumeChar ?p f c)"
    by (simp add: onData_append pre split: prod.splits)
  finally have after: "fst (onData parse fresh (pre @ [c])) = fst (consumeChar ?p f c)" .
  with assms(2) have "state (fst (consumeChar ?p f c)) = RECEIVING" by simp
  with idle have step: "consumeChar ?p f c = (\<lparr>state = RECEIVING, messageBuffer = ''<SEND>''\<rparr>, [])"
    by (rule consumeChar_enter_receiving)
  have one: "onData ?p fresh (pre @ [c]) = (\<lparr>state = RECEIVING, messageBuffer = ''<SEND>''\<rparr>, out)"
    by (simp add: onData_append pre step)
  have a: "fst (onData parse fresh (pre @ [c])) = \<lparr>state = RECEIVING, messageBuffer = ''<SEND>''\<rparr>"
    using after step by simp
  have b: "completeMessages fresh (pre @ [c]) = completeMessages fresh pre"
    by (simp add: completeMessages_def one pre)
  have "completeMessages fresh ((pre @ [c]) @ rest) =
      completeMessages fresh (pre @ [c]) @
      completeMessages (fst (onData parse fresh (pre @ [c]))) rest"
    by (rule completeMessages_append)
  with a b have c: "completeMessages fresh (pre @ c # rest) =
      completeMessages fresh pre @
      completeMessages \<lparr>state = RECEIVING, messageBuffer = ''<SEND>''\<rparr> rest"
    by simp
  from a b c show ?thesis by blast
qed

theorem C7_witness:
  "state (fst (onData (parseProtocol ''t'') fresh ''junk<SEND'')) = IDLE \<and>
   fst (onData (parseProtocol ''t'') fresh (''junk<SEND'' @ ''>'')) =
     \<lparr>state = RECEIVING, messageBuffer = ''<SEND>''\<rparr> \<and>
   completeMessages fresh (''junk<SEND'' @ CHR ''>'' # ''abc</SEND>'') = [''<SEND>abc</SEND>'']"
proof -
  have i: "state (fst (onData (parseProtocol ''t'') fresh ''junk<SEND'')) = IDLE"
    by (simp add: fresh_def consumeChar_def)
  have r: "state (fst (onData (parseProtocol ''t'') fresh (''junk<SEND'' @ ''>''))) = RECEIVING"
    by (simp add: fresh_def consumeChar_def)
  have p: "completeMessages fresh ''junk<SEND'' = []"
    by (simp add: completeMessages_def fresh_def consumeChar_def)
  have m: "completeMessages \<lparr>state = RECEIVING, messageBuffer = ''<SEND>''\<rparr> ''abc</SEND>'' =
      [''<SEND>abc</SEND>'']"
    by (simp add: completeMessages_def consumeChar_def handleCompleteMessage_def)
  from C7_leading_bytes_discarded[OF i r, of "''abc</SEND>''"] i p m
  show ?thesis by simp
qed

text \<open>
  Claim C8. The character that completes a message resets the framer first and runs
  the decoder on the reset framer. Whatever the decoder does, the framer is then a fresh
  one; a decoder that throws \<open>err\<close> yields the single event \<open>error\<close> with \<open>err\<close> and no
  results, and the rest of the stream is framed by a fresh framer. The state of the
  framer and the messages it hands over do not depend on the decoder at all.
\<close>

theorem C8_decode_failure_isolated:
  assumes "state this = RECEIVING"
    and "js_includes (messageBuffer this @ [c]) ''</SEND>''"
  shows "consumeChar parse this c =
           handleCompleteMessage parse \<lparr>state = IDLE, messageBuffer = []\<rparr> (messageBuffer this @ [c]) \<and>
         (\<forall>err. parse (messageBuffer this @ [c]) = Inl err \<longrightarrow>
            consumeChar parse this c = (fresh, [ErrorEv err]) \<and>
            onData parse this (c # rest) =
              (fst (onData parse fresh rest), ErrorEv err # snd (onData parse fresh rest))) \<and>
         fst (onData parse this (c # rest)) = fst (onData parse' this (c # rest)) \<and>
         completeMessages this (c # rest) =
           (messageBuffer this @ [c]) # completeMessages fresh rest"
proof -
  let ?m = "messageBuffer this @ [c]"
  have step: "consumeChar parse this c = (fresh, [event_of parse ?m])" for parse :: "string \<Rightarrow> 'x + 'y"
    using consumeChar_end[OF assms, of parse] by (simp add: fresh_def)
  have a: "consumeChar parse this c =
      handleCompleteMessage parse \<lparr>state = IDLE, messageBuffer = []\<rparr> ?m"
    by (simp add: step handleCompleteMessage_eq fresh_def)
  have b: "parse ?m = Inl err \<Longrightarrow>
      consumeChar parse this c = (fresh, [ErrorEv err]) \<and>
      onData parse this (c # rest) =
        (fst (onData parse fresh rest), ErrorEv err # snd (onData parse fresh rest))" for err
    by (simp add: step event_of_def split: prod.splits)
  have c: "fst (onData parse this (c # rest)) = fst (onData parse' this (c # rest))"
    by (rule fst_onData_parse)
  have d: "completeMessages this (c # rest) = ?m # completeMessages fresh rest"
    by (simp add: completeMessages_def step event_of_def split: prod.splits)
  from a b c d show ?thesis by blast
qed

theorem C8_witness:
  "consumeChar (\<lambda>m. Inl (JsError ''boom'') :: js_error + decoded)
     \<lparr>state = RECEIVING, messageBuffer = ''<SEND>x</SEND''\<rparr> (CHR ''>'') =
     (fresh, [ErrorEv (JsError ''boom'')]) \<and>
   onData (\<lambda>m. Inl (JsError ''boom'') :: js_error + decoded)
     \<lparr>state = RECEIVING, messageBuffer = ''<SEND>x</SEND''\<rparr> (CHR ''>'' # ''<SEND>y</SEND>'') =
     (fresh, [ErrorEv (JsError ''boom''), ErrorEv (JsError ''boom'')]) \<and>
   fst (onData (parseProtocol ''t'')
     \<lparr>state = RECEIVING, messageBuffer = ''<SEND>x</SEND''\<rparr> (CHR ''>'' # ''<SEND>y</SEND>'')) = fresh \<and>
   completeMessages \<lparr>state = RECEIVING, messageBuffer = ''<SEND>x</SEND''\<rparr>
     (CHR ''>'' # ''<SEND>y</SEND>'') = [''<SEND>x</SEND>'', ''<SEND>y</SEND>'']"
proof -
  let ?f = "\<lparr>state = RECEIVING, messageBuffer = ''<SEND>x</SEND''\<rparr>"
  let ?bad = "\<lambda>m. Inl (JsError ''boom'') :: js_error + decoded"
  have s: "state ?f = RECEIVING" by simp
  have i: "js_includes (messageBuffer ?f @ ''>'') ''</SEND>''" by simp
  have r: "onData ?bad fresh ''<SEND>y</SEND>'' = (fresh, [ErrorEv (JsError ''boom'')])"
    by (simp add: fresh_def consumeChar_def handleCompleteMessage_def)
  have m: "completeMessages fresh ''<SEND>y</SEND>'' = [''<SEND>y</SEND>'']"
    by (simp add: completeMessages_def fresh_def consumeChar_def handleCompleteMessage_def)
  note inst = C8_decode_failure_isolated[OF s i, of ?bad "''<SEND>y</SEND>''" "parseProtocol ''t''"]
  have e: "?bad (messageBuffer ?f @ ''>'') = Inl (JsError ''boom'')" by simp
  from inst e have p1: "consumeChar ?bad ?f (CHR ''>'') = (fresh, [ErrorEv (JsError ''boom'')])"
    and p2: "onData ?bad ?f (CHR ''>'' # ''<SEND>y</SEND>'') =
      (fst (onData ?bad fresh ''<SEND>y</SEND>''),
       ErrorEv (JsError ''boom'') # snd (onData ?bad fresh ''<SEND>y</SEND>''))"
    by blast+
  from inst have p3: "fst (onData ?bad ?f (CHR ''>'' # ''<SEND>y</SEND>'')) =
      fst (onData (parseProtocol ''t'') ?f (CHR ''>'' # ''<SEND>y</SEND>''))"
    and p4: "completeMessages ?f (CHR ''>'' # ''<SEND>y</SEND>'') =
      (messageBuffer ?f @ ''>'') # completeMessages fresh ''<SEND>y</SEND>''"
    by blast+
  have q2: "onData ?bad ?f (CHR ''>'' # ''<SEND>y</SEND>'') =
      (fresh, [ErrorEv (JsError ''boom''), ErrorEv (JsError ''boom'')])"
    unfolding p2 r by simp
  have q3: "fst (onData (parseProtocol ''t'') ?f (CHR ''>'' # ''<SEND>y</SEND>'')) = fresh"
    using p3 unfolding q2 by simp
  have q4: "completeMessages ?f (CHR ''>'' # ''<SEND>y</SEND>'') =
      [''<SEND>x</SEND>'', ''<SEND>y</SEND>'']"
    unfolding p4 m by simp
  from p1 q2 q3 q4 show ?thesis by blast
qed

text \<open>
  Claim C9. The decoder returns normally on every message, and each section that is
  absent from the text (or that the expression of the section does not match) leaves
  its part of the record as it was created: \<open>machineInfo\<close> and \<open>sampleInfo\<close> empty,
  \<open>results\<close> with no entry.
\<close>

theorem C9_absent_sections:
  "\<exists>d. parseProtocol now raw' = Inr d \<and> raw d = raw' \<and>
     (section_absent ''<M>'' ''</M>'' (clean_text raw') \<longrightarrow> machineInfo d = None) \<and>
     (section_absent ''<I>'' ''</I>'' (clean_text raw') \<longrightarrow> sampleInfo d = None) \<and>
     (section_absent ''<R>'' ''</R>'' (clean_text raw') \<longrightarrow> results d = empty_obj) \<and>
     (js_match rx_M (clean_text raw') = None \<longrightarrow> machineInfo d = None) \<and>
     (js_match rx_I (clean_text raw') = None \<longrightarrow> sampleInfo d = None) \<and>
     (js_match rx_R (clean_text raw') = None \<longrightarrow> results d = empty_obj)"
proof -
  obtain d where d: "parseProtocol now raw' = Inr d"
    using parseProtocol_total by blast
  note f = parseProtocol_fields[OF d]
  have m: "machineInfo d = None" if "js_match rx_M (clean_text raw') = None"
    using f(3) that by simp
  have s: "sampleInfo d = None" if "js_match rx_I (clean_text raw') = None"
    using f(4) that by simp
  have r: "results d = empty_obj" if "js_match rx_R (clean_text raw') = None"
    using f(5) that by (simp add: clinical_empty)
  have m': "machineInfo d = None" if "section_absent ''<M>'' ''</M>'' (clean_text raw')"
    using that by (intro m no_match_without_tags(1))
  have s': "sampleInfo d = None" if "section_absent ''<I>'' ''</I>'' (clean_text raw')"
    using that by (intro s no_match_without_tags(2))
  have r': "results d = empty_obj" if "section_absent ''<R>'' ''</R>'' (clean_text raw')"
    using that by (intro r no_match_without_tags(3))
  show ?thesis
    by (rule exI[of _ d]) (simp add: d f(1) m s r m' s' r')
qed

theorem C9_witness:
  "parseProtocol ''t'' bare_message = Inr
     \<lparr>machineInfo = None, sampleInfo = None, results = empty_obj,
      raw = bare_message, receivedAt = ''t''\<rparr> \<and>
   section_absent ''<M>'' ''</M>'' (clean_text bare_message) \<and>
   section_absent ''<I>'' ''</I>'' (clean_text bare_message) \<and>
   section_absent ''<R>'' ''</R>'' (clean_text bare_message)"
proof -
  have a: "section_absent ''<M>'' ''</M>'' (clean_text bare_message)"
    "section_absent ''<I>'' ''</I>'' (clean_text bare_message)"
    "section_absent ''<R>'' ''</R>'' (clean_text bare_message)"
    using bare_absent by (simp_all add: bare_clean)
  from C9_absent_sections[of "''t''" bare_message] obtain d where
    d: "parseProtocol ''t'' bare_message = Inr d" and r: "raw d = bare_message"
    and m: "machineInfo d = None" and s: "sampleInfo d = None" and e: "results d = empty_obj"
    using a by blast
  have t: "receivedAt d = ''t''" using parseProtocol_fields(2)[OF d] .
  have "d = \<lparr>machineInfo = None, sampleInfo = None, results = empty_obj,
      raw = bare_message, receivedAt = ''t''\<rparr>"
    using r m s e t by (cases d) simp
  with d a show ?thesis by simp
qed

text \<open>
  Claim C10. After every character fed to a fresh framer the invariant of the two fields
  holds, and every message handed to the decoder begins with the start delimiter, ends
  with the end delimiter and holds the end delimiter exactly once.
\<close>

theorem C10_framer_invariant:
  "(\<forall>n. framer_inv (fst (onData parse fresh (take n cs)))) \<and>
   (\<forall>m \<in> set (completeMessages fresh cs).
      prefix ''<SEND>'' m \<and> suffix ''</SEND>'' m \<and> occurrences ''</SEND>'' m = 1)"
proof -
  have "framer_inv (fst (onData parse fresh (take n cs)))" for n
    using framer_inv_fresh by (rule framer_inv_onData)
  moreover have "well_framed m" if "m \<in> set (completeMessages fresh cs)" for m
    using framer_inv_fresh that by (rule messages_well_framed)
  ultimately show ?thesis by (simp add: well_framed_def)
qed

theorem C10_witness:
  "framer_inv (fst (onData (parseProtocol ''t'') fresh (take 12 ''xy<SEND>abc</SEND>z''))) \<and>
   fst (onData (parseProtocol ''t'') fresh (take 12 ''xy<SEND>abc</SEND>z'')) =
     \<lparr>state = RECEIVING, messageBuffer = ''<SEND>abc<''\<rparr> \<and>
   completeMessages fresh ''xy<SEND>abc</SEND>z'' = [''<SEND>abc</SEND>''] \<and>
   prefix ''<SEND>'' ''<SEND>abc</SEND>'' \<and> suffix ''</SEND>'' ''<SEND>abc</SEND>'' \<and>
   occurrences ''</SEND>'' ''<SEND>abc</SEND>'' = 1"
proof -
  have m: "completeMessages fresh ''xy<SEND>abc</SEND>z'' = [''<SEND>abc</SEND>'']"
    by (simp add: completeMessages_def fresh_def consumeChar_def handleCompleteMessage_def)
  have f: "fst (onData (parseProtocol ''t'') fresh (take 12 ''xy<SEND>abc</SEND>z'')) =
     \<lparr>state = RECEIVING, messageBuffer = ''<SEND>abc<''\<rparr>"
    by (simp add: fresh_def consumeChar_def)
  from C10_framer_invariant[of "parseProtocol ''t''" "''xy<SEND>abc</SEND>z''"] m f
  show ?thesis by (metis list.set_intros(1))
qed

end
